theory Spec2Isabelle
  imports Complex_Main
begin

section \<open>The Go library functions used by gyaml.go\<close>

text \<open>
  gyaml.go calls four packages that are not part of the repository: \<^verbatim>\<open>strings\<close>,
  \<^verbatim>\<open>strconv\<close>, \<^verbatim>\<open>fmt\<close> and \<^verbatim>\<open>gopkg.in/yaml.v3\<close>. The string and integer
  functions are small and are written out below, on Go strings as byte lists and on
  63/64-bit ranges with the range checks of the library. Everything that touches
  float64 values or YAML text (parsing, printing, encoding, decoding) is taken as a
  parameter of the model, collected in the record \<open>golib\<close> further down.
\<close>

subsection \<open>Package strings\<close>

definition HasPrefix :: "string \<Rightarrow> string \<Rightarrow> bool" where
  "HasPrefix s p = (take (length p) s = p)"

definition HasSuffix :: "string \<Rightarrow> string \<Rightarrow> bool" where
  "HasSuffix s p = (length p \<le> length s \<and> drop (length s - length p) s = p)"

text \<open>\<^verbatim>\<open>strings.Split(s, ".")\<close> for a one-byte separator: never empty, one more field than
  there are separators.\<close>

fun Split :: "string \<Rightarrow> char \<Rightarrow> string list" where
  "Split [] c = [[]]"
| "Split (x # xs) c =
     (if x = c then [] # Split xs c
      else (case Split xs c of [] \<Rightarrow> [[x]] | p # ps \<Rightarrow> (x # p) # ps))"

text \<open>\<^verbatim>\<open>strings.Join(parts, ".")\<close>.\<close>

fun Join :: "string list \<Rightarrow> char \<Rightarrow> string" where
  "Join [] c = []"
| "Join [p] c = p"
| "Join (p # q # ps) c = p @ c # Join (q # ps) c"

text \<open>The first occurrence of a non-empty separator: the text before it and the text
  after it. \<^verbatim>\<open>strings.Contains\<close> and \<^verbatim>\<open>strings.SplitN(s, sep, 2)\<close> are both read off it.\<close>

fun cut :: "string \<Rightarrow> string \<Rightarrow> (string \<times> string) option" where
  "cut [] sep = None"
| "cut (x # xs) sep =
     (if HasPrefix (x # xs) sep then Some ([], drop (length sep) (x # xs))
      else (case cut xs sep of None \<Rightarrow> None | Some (a, b) \<Rightarrow> Some (x # a, b)))"

definition Contains :: "string \<Rightarrow> string \<Rightarrow> bool" where
  "Contains s sep = (cut s sep \<noteq> None)"

definition SplitN2 :: "string \<Rightarrow> string \<Rightarrow> string list" where
  "SplitN2 s sep = (case cut s sep of None \<Rightarrow> [s] | Some (a, b) \<Rightarrow> [a, b])"

text \<open>\<^verbatim>\<open>strings.Trim(s, cutset)\<close> for a cutset of one-byte characters.\<close>

definition Trim :: "string \<Rightarrow> string \<Rightarrow> string" where
  "Trim s cutset =
     rev (dropWhile (\<lambda>c. c \<in> set cutset) (rev (dropWhile (\<lambda>c. c \<in> set cutset) s)))"

text \<open>\<^verbatim>\<open>strings.TrimSpace\<close> removes leading and trailing Unicode white space. On the
  UTF-8 bytes of a Go string these are the six one-byte characters tab, line feed,
  vertical tab, form feed, carriage return and space, and the encodings of U+0085,
  U+00A0, U+1680, U+2000 to U+200A, U+2028, U+2029, U+202F, U+205F and U+3000.\<close>

definition space_runes :: "string list" where
  "space_runes =
     [[CHR 0x09],
      [CHR 0x0A],
      [CHR 0x0B],
      [CHR 0x0C],
      [CHR 0x0D],
      [CHR 0x20],
      [CHR 0xC2, CHR 0x85],
      [CHR 0xC2, CHR 0xA0],
      [CHR 0xE1, CHR 0x9A, CHR 0x80],
      [CHR 0xE2, CHR 0x80, CHR 0x80],
      [CHR 0xE2, CHR 0x80, CHR 0x81],
      [CHR 0xE2, CHR 0x80, CHR 0x82],
      [CHR 0xE2, CHR 0x80, CHR 0x83],
      [CHR 0xE2, CHR 0x80, CHR 0x84],
      [CHR 0xE2, CHR 0x80, CHR 0x85],
      [CHR 0xE2, CHR 0x80, CHR 0x86],
      [CHR 0xE2, CHR 0x80, CHR 0x87],
      [CHR 0xE2, CHR 0x80, CHR 0x88],
      [CHR 0xE2, CHR 0x80, CHR 0x89],
      [CHR 0xE2, CHR 0x80, CHR 0x8A],
      [CHR 0xE2, CHR 0x80, CHR 0xA8],
      [CHR 0xE2, CHR 0x80, CHR 0xA9],
      [CHR 0xE2, CHR 0x80, CHR 0xAF],
      [CHR 0xE2, CHR 0x81, CHR 0x9F],
      [CHR 0xE3, CHR 0x80, CHR 0x80]]"

function trim_left :: "string list \<Rightarrow> string \<Rightarrow> string" where
  "trim_left runes s =
     (case find (\<lambda>r. r \<noteq> [] \<and> HasPrefix s r) runes of
        None \<Rightarrow> s
      | Some r \<Rightarrow> trim_left runes (drop (length r) s))"
  by pat_completeness auto
termination
proof (relation "measure (\<lambda>(runes, s). length s)")
  show "wf (measure (\<lambda>(runes, s). length s))" by simp
next
  fix runes :: "string list" and s r :: string
  assume "find (\<lambda>r. r \<noteq> [] \<and> HasPrefix s r) runes = Some r"
  then have "r \<noteq> []" and "HasPrefix s r"
    by (auto simp: find_Some_iff)
  then have "s \<noteq> []"
    by (auto simp: HasPrefix_def)
  with \<open>r \<noteq> []\<close> show "((runes, drop (length r) s), (runes, s)) \<in> measure (\<lambda>(runes, s). length s)"
    by simp
qed

definition TrimSpace :: "string \<Rightarrow> string" where
  "TrimSpace s = rev (trim_left (map rev space_runes) (rev (trim_left space_runes s)))"

subsection \<open>Package strconv, integers\<close>

text \<open>\<^verbatim>\<open>strconv.ParseUint(s, 10, 64)\<close> returns a value and an error. A character that
  is not a decimal digit gives the value 0 and a syntax error; a prefix that leaves the
  64-bit range gives the largest value and a range error, without looking at the rest.
  Values of the Go types uint64 and int64 are integers here, with the bounds written
  out.\<close>

datatype NumError = ErrSyntax | ErrRange

definition maxUint64 :: int where
  "maxUint64 = 18446744073709551615"

fun parse_digits :: "int \<Rightarrow> string \<Rightarrow> int \<times> NumError option" where
  "parse_digits n [] = (n, None)"
| "parse_digits n (c # cs) =
     (let k = (of_char c :: int) in
      if 48 \<le> k \<and> k \<le> 57 then
        (if n \<ge> maxUint64 div 10 + 1 then (maxUint64, Some ErrRange)
         else if n * 10 + (k - 48) > maxUint64 then (maxUint64, Some ErrRange)
         else parse_digits (n * 10 + (k - 48)) cs)
      else (0, Some ErrSyntax))"

definition ParseUint :: "string \<Rightarrow> int \<times> NumError option" where
  "ParseUint s = (if s = [] then (0, Some ErrSyntax) else parse_digits 0 s)"

text \<open>\<^verbatim>\<open>strconv.ParseInt(s, 10, 64)\<close>: an optional sign, then ParseUint; a syntax error
  gives 0, a magnitude out of range gives the nearest bound, both with an error.\<close>

definition ParseInt :: "string \<Rightarrow> int \<times> NumError option" where
  "ParseInt s =
     (if s = [] then (0, Some ErrSyntax)
      else
        (let neg = (hd s = CHR ''-'');
             body = (if hd s = CHR ''+'' \<or> hd s = CHR ''-'' then tl s else s)
         in case ParseUint body of
              (un, Some ErrSyntax) \<Rightarrow> (0, Some ErrSyntax)
            | (un, e) \<Rightarrow>
                if \<not> neg \<and> un \<ge> 2 ^ 63 then (2 ^ 63 - 1, Some ErrRange)
                else if neg \<and> un > 2 ^ 63 then (- (2 ^ 63), Some ErrRange)
                else (if neg then - un else un, None)))"

text \<open>\<^verbatim>\<open>strconv.Atoi\<close> on a platform whose \<^verbatim>\<open>int\<close> has 64 bits; gyaml.go uses the
  value only when the error is nil.\<close>

definition Atoi :: "string \<Rightarrow> int option" where
  "Atoi s = (case ParseInt s of (n, None) \<Rightarrow> Some n | (n, Some e) \<Rightarrow> None)"

text \<open>\<^verbatim>\<open>strconv.FormatUint(n, 10)\<close> and \<^verbatim>\<open>strconv.FormatInt(i, 10)\<close>.\<close>

function FormatUint :: "int \<Rightarrow> string" where
  "FormatUint n =
     (if n < 10 then [char_of (48 + n)]
      else FormatUint (n div 10) @ [char_of (48 + n mod 10)])"
  by pat_completeness auto
termination
  by (relation "measure nat") auto

definition FormatInt :: "int \<Rightarrow> string" where
  "FormatInt i = (if i < 0 then CHR ''-'' # FormatUint (- i) else FormatUint i)"

section \<open>Value model\<close>

text \<open>The decoder hands gyaml.go a Go empty interface. Its dynamic type is one of the
  types the type switches of gyaml.go name; anything else (for instance the time values
  the decoder produces for timestamps) is \<open>VOther\<close>. A Go map is kept as the list of
  its entries, one per key.\<close>

datatype int_kind = KInt | KInt8 | KInt16 | KInt32 | KInt64

datatype uint_kind = KUint | KUint8 | KUint16 | KUint32 | KUint64

datatype float_kind = KFloat32 | KFloat64

datatype 'f node =
    VNil
  | VBool bool
  | VString string
  | VInt int_kind int
  | VUint uint_kind int
  | VFloat float_kind 'f
  | VSlice "'f node list"
  | VMap "(string \<times> 'f node) list"
  | VMapAny "('f node \<times> 'f node) list"
  | VOther string

datatype Type = Null | False_t | Number | String | True_t | YAML

record 'f Result =
  Type :: Type
  Raw :: string
  Str :: string
  Num :: 'f
  Index :: int

text \<open>The functions of \<^verbatim>\<open>yaml.v3\<close>, \<^verbatim>\<open>fmt\<close> and \<^verbatim>\<open>strconv\<close> on float64 values and YAML
  text. The type \<open>'f\<close> stands for float64; its zero and its order are those of the
  type classes \<open>zero\<close> and \<open>ord\<close>, of which nothing is assumed.
  \<^item> \<open>Unmarshal s\<close> is \<^verbatim>\<open>yaml.Unmarshal([]byte(s), &v)\<close> for an empty interface \<open>v\<close>
    that starts as nil: the value left in \<open>v\<close>, and whether the error is nil.
  \<^item> \<open>Marshal v\<close> is \<^verbatim>\<open>yaml.Marshal(v)\<close>, \<open>None\<close> when it returns an error.
  \<^item> \<open>Sprint_other v\<close> is \<^verbatim>\<open>fmt.Sprintf("%v", v)\<close> for floats, slices, maps and other
    values.
  \<^item> \<open>ParseFloat s\<close> is \<^verbatim>\<open>strconv.ParseFloat(s, 64)\<close>, \<open>None\<close> when it returns an error.
  \<^item> \<open>FormatFloat k x\<close> is \<^verbatim>\<open>strconv.FormatFloat(x, 'g', -1, bits)\<close> with 32 or 64 bits.
  \<^item> the last three are the conversions \<^verbatim>\<open>float64(i)\<close>, \<^verbatim>\<open>int64(x)\<close> and \<^verbatim>\<open>uint64(x)\<close>.\<close>

record 'f golib =
  Unmarshal :: "string \<Rightarrow> 'f node \<times> bool"
  Marshal :: "'f node \<Rightarrow> string option"
  Sprint_other :: "'f node \<Rightarrow> string"
  ParseFloat :: "string \<Rightarrow> 'f option"
  FormatFloat :: "float_kind \<Rightarrow> 'f \<Rightarrow> string"
  float64_of_int :: "int \<Rightarrow> 'f"
  int64_of_float64 :: "'f \<Rightarrow> int"
  uint64_of_float64 :: "'f \<Rightarrow> int"

text \<open>\<^verbatim>\<open>fmt.Sprintf("%v", v)\<close>: a string prints as itself, a boolean as true or false, an
  integer in decimal, the nil interface as \<^verbatim>\<open><nil>\<close>.\<close>

definition Sprint :: "'f golib \<Rightarrow> 'f node \<Rightarrow> string" where
  "Sprint L v =
     (case v of
        VNil \<Rightarrow> ''<nil>''
      | VBool b \<Rightarrow> (if b then ''true'' else ''false'')
      | VString s \<Rightarrow> s
      | VInt k i \<Rightarrow> FormatInt i
      | VUint k n \<Rightarrow> FormatUint n
      | _ \<Rightarrow> Sprint_other L v)"

section \<open>Result and its methods\<close>

definition null_result :: "('f::zero) Result" where
  "null_result = \<lparr>Type = Null, Raw = [], Str = [], Num = 0, Index = 0\<rparr>"

definition Result_Exists :: "'f Result \<Rightarrow> bool" where
  "Result_Exists t = (Type t \<noteq> Null)"



definition Result_Value :: "('f::zero) golib \<Rightarrow> 'f Result \<Rightarrow> 'f node" where
  "Result_Value L t =
     (if Type t = YAML then fst (Unmarshal L (Raw t))
      else (case Type t of
              False_t \<Rightarrow> VBool False
            | Number \<Rightarrow> VFloat KFloat64 (Num t)
            | String \<Rightarrow> VString (Str t)
            | True_t \<Rightarrow> VBool True
            | _ \<Rightarrow> VNil))"

definition makeResult :: "('f::zero) golib \<Rightarrow> 'f node \<Rightarrow> 'f Result" where
  "makeResult L v =
     (case v of
        VNil \<Rightarrow> null_result
      | VBool b \<Rightarrow> (if b then null_result\<lparr>Type := True_t\<rparr> else null_result\<lparr>Type := False_t\<rparr>)
      | VString s \<Rightarrow> null_result\<lparr>Type := String, Str := s\<rparr>
      | VInt k i \<Rightarrow> null_result\<lparr>Type := Number, Num := float64_of_int L i, Raw := FormatInt i\<rparr>
      | VUint k n \<Rightarrow>
          null_result\<lparr>Type := Number, Num := float64_of_int L n, Raw := FormatUint n\<rparr>
      | VFloat k x \<Rightarrow> null_result\<lparr>Type := Number, Num := x, Raw := FormatFloat L k x\<rparr>
      | _ \<Rightarrow>
          (case Marshal L v of
             None \<Rightarrow> null_result
           | Some raw \<Rightarrow> null_result\<lparr>Type := YAML, Raw := raw\<rparr>))"

section \<open>Queries\<close>

definition compareNumbers :: "('f::{zero,ord}) golib \<Rightarrow> 'f node \<Rightarrow> string \<Rightarrow> int" where
  "compareNumbers L val expectedStr =
     (let valFloat =
        (case val of
           VInt k i \<Rightarrow>
             (if k = KInt then Some (float64_of_int L i)
              else (case ParseInt (Sprint L val) of
                      (n, None) \<Rightarrow> Some (float64_of_int L n)
                    | (n, Some e) \<Rightarrow> None))
         | VUint k n \<Rightarrow>
             (case ParseUint (Sprint L val) of
                (m, None) \<Rightarrow> Some (float64_of_int L m)
              | (m, Some e) \<Rightarrow> None)
         | VFloat k x \<Rightarrow> Some x
         | _ \<Rightarrow> ParseFloat L (Sprint L val))
      in case valFloat of
           None \<Rightarrow> 0
         | Some x \<Rightarrow>
             (case ParseFloat L expectedStr of
                None \<Rightarrow> 0
              | Some y \<Rightarrow> (if y < x then 1 else if x < y then - 1 else 0)))"

definition matchesCondition :: "('f::{zero,ord}) golib \<Rightarrow> 'f node \<Rightarrow> string \<Rightarrow> string \<Rightarrow> bool" where
  "matchesCondition L val operator expected =
     (let valStr = Sprint L val in
      if operator = ''='' then valStr = expected
      else if operator = ''!='' then valStr \<noteq> expected
      else if operator = ''>'' then compareNumbers L val expected > 0
      else if operator = ''<'' then compareNumbers L val expected < 0
      else if operator = ''>='' then compareNumbers L val expected \<ge> 0
      else if operator = ''<='' then compareNumbers L val expected \<le> 0
      else False)"

text \<open>The quote characters that \<^verbatim>\<open>strings.Trim\<close> strips from the literal of a query.\<close>

definition quotes :: string where
  "quotes = [CHR 0x22, CHR 0x27]"

text \<open>The loop of handleArrayQuery over the operators: key, operator and value of the
  first operator that occurs in the query, three empty strings when none does.\<close>

fun find_operator :: "string \<Rightarrow> string list \<Rightarrow> string \<times> string \<times> string" where
  "find_operator query [] = ([], [], [])"
| "find_operator query (op # ops) =
     (if Contains query op then
        (case SplitN2 query op of
           [a, b] \<Rightarrow> (TrimSpace a, op, Trim (TrimSpace b) quotes)
         | _ \<Rightarrow> find_operator query ops)
      else find_operator query ops)"

text \<open>The loop of handleArrayQuery over the elements.\<close>

fun first_match ::
  "('f::{zero,ord}) golib \<Rightarrow> 'f node list \<Rightarrow> string \<Rightarrow> string \<Rightarrow> string \<Rightarrow> 'f Result" where
  "first_match L [] key operator val = null_result"
| "first_match L (item # items) key operator val =
     (case item of
        VMap obj \<Rightarrow>
          (case map_of obj key of
             Some v \<Rightarrow>
               (if matchesCondition L v operator val then makeResult L item
                else first_match L items key operator val)
           | None \<Rightarrow> first_match L items key operator val)
      | _ \<Rightarrow>
          (if key = [] \<and> operator \<noteq> [] \<and> matchesCondition L item operator val
           then makeResult L item
           else first_match L items key operator val))"

definition handleArrayQuery :: "('f::{zero,ord}) golib \<Rightarrow> 'f node \<Rightarrow> string \<Rightarrow> 'f Result" where
  "handleArrayQuery L current query =
     (case current of
        VSlice arr \<Rightarrow>
          (case find_operator query [''>='', ''<='', ''!='', ''>'', ''<'', ''=''] of
             (key, operator, val) \<Rightarrow>
               (if operator = [] then
                  (if Contains query ''='' then
                     (case SplitN2 query ''='' of
                        [a, b] \<Rightarrow>
                          first_match L arr (TrimSpace a) ''='' (Trim (TrimSpace b) quotes)
                      | _ \<Rightarrow> first_match L arr key operator val)
                   else null_result)
                else first_match L arr key operator val))
      | _ \<Rightarrow> null_result)"

section \<open>Path resolution\<close>

text \<open>A run-time panic of the Go code is a value of the model. gyaml.go can panic in a
  slice expression \<^verbatim>\<open>s[lo:hi]\<close> and in an index expression \<^verbatim>\<open>v[i]\<close>.\<close>

datatype panic = SliceBoundsOutOfRange | IndexOutOfRange

definition slice_str :: "string \<Rightarrow> int \<Rightarrow> int \<Rightarrow> panic + string" where
  "slice_str s lo hi =
     (if 0 \<le> lo \<and> lo \<le> hi \<and> hi \<le> int (length s)
      then Inr (take (nat (hi - lo)) (drop (nat lo) s))
      else Inl SliceBoundsOutOfRange)"

definition index_node :: "'a list \<Rightarrow> int \<Rightarrow> panic + 'a" where
  "index_node v i =
     (if 0 \<le> i \<and> i < int (length v) then Inr (v ! nat i) else Inl IndexOutOfRange)"

text \<open>The size of a list of path segments: the length of the segments joined by dots,
  plus one. It bounds the recursion of getByPath.\<close>

definition parts_size :: "string list \<Rightarrow> nat" where
  "parts_size parts = sum_list (map (\<lambda>p. Suc (length p)) parts)"

text \<open>getByPath, with the body of its loop over \<^verbatim>\<open>parts\<close> as \<open>walk\<close>: the list is
  \<^verbatim>\<open>parts[i:]\<close>, so that \<^verbatim>\<open>i == len(parts)-1\<close> reads \<open>rest = []\<close> and \<^verbatim>\<open>parts[i+1:]\<close> is
  \<open>rest\<close>. handleArrayOperation, with its loop over the elements as \<open>collect\<close>.\<close>

function getByPath :: "('f::{zero,ord}) golib \<Rightarrow> 'f node \<Rightarrow> string \<Rightarrow> panic + 'f Result"
  and walk :: "'f golib \<Rightarrow> 'f node \<Rightarrow> string list \<Rightarrow> panic + 'f Result"
  and handleArrayOperation :: "'f golib \<Rightarrow> 'f node \<Rightarrow> string \<Rightarrow> panic + 'f Result"
  and collect :: "'f golib \<Rightarrow> 'f node list \<Rightarrow> string \<Rightarrow> panic + 'f node list"
where
  "getByPath L root_node path =
     (if path = [] then
        (case root_node of
           VNil \<Rightarrow> Inr null_result
         | VSlice v \<Rightarrow>
             (case Marshal L root_node of
                None \<Rightarrow> Inr null_result
              | Some raw \<Rightarrow> Inr (null_result\<lparr>Type := YAML, Raw := raw\<rparr>))
         | VMap v \<Rightarrow>
             (case Marshal L root_node of
                None \<Rightarrow> Inr null_result
              | Some raw \<Rightarrow> Inr (null_result\<lparr>Type := YAML, Raw := raw\<rparr>))
         | VMapAny v \<Rightarrow>
             (case Marshal L root_node of
                None \<Rightarrow> Inr null_result
              | Some raw \<Rightarrow> Inr (null_result\<lparr>Type := YAML, Raw := raw\<rparr>))
         | VOther v \<Rightarrow>
             (case Marshal L root_node of
                None \<Rightarrow> Inr null_result
              | Some raw \<Rightarrow> Inr (null_result\<lparr>Type := YAML, Raw := raw\<rparr>))
         | _ \<Rightarrow> Inr (makeResult L root_node))
      else walk L root_node (Split path (CHR ''.'')))"
| "walk L current [] = Inr (makeResult L current)"
| "walk L current (part # rest) =
     (if part = [] then walk L current rest
      else if part = ''#'' then
        (if rest = [] then
           (case current of
              VSlice v \<Rightarrow>
                Inr (null_result\<lparr>Type := Number, Num := float64_of_int L (int (length v))\<rparr>)
            | VMap v \<Rightarrow>
                Inr (null_result\<lparr>Type := Number, Num := float64_of_int L (int (length v))\<rparr>)
            | _ \<Rightarrow> Inr null_result)
         else handleArrayOperation L current (Join rest (CHR ''.'')))
      else if HasPrefix part ''#('' \<and> HasSuffix part '')'' then
        (case slice_str part 2 (int (length part) - 1) of
           Inl p \<Rightarrow> Inl p
         | Inr query \<Rightarrow>
             (let result = handleArrayQuery L current query in
              if \<not> Result_Exists result then Inr result
              else if rest \<noteq> [] then
                (if Type result = YAML then
                   (case Unmarshal L (Raw result) of
                      (parsed, ok) \<Rightarrow>
                        (if \<not> ok then Inr null_result
                         else getByPath L parsed (Join rest (CHR ''.''))))
                 else getByPath L (Result_Value L result) (Join rest (CHR ''.'')))
              else Inr result))
      else if HasPrefix part ''#'' \<and> part \<noteq> ''#'' then
        (case (case current of VMap obj \<Rightarrow> map_of obj part | _ \<Rightarrow> None) of
           Some v \<Rightarrow> walk L v rest
         | None \<Rightarrow>
             (case slice_str part 1 (int (length part)) of
                Inl p \<Rightarrow> Inl p
              | Inr remaining \<Rightarrow> handleArrayOperation L current remaining))
      else
        (case Atoi part of
           Some idx \<Rightarrow>
             (case current of
                VSlice v \<Rightarrow>
                  (if idx < 0 \<or> idx \<ge> int (length v) then Inr null_result
                   else (case index_node v idx of
                           Inl p \<Rightarrow> Inl p
                         | Inr c \<Rightarrow> walk L c rest))
              | _ \<Rightarrow> Inr null_result)
         | None \<Rightarrow>
             (case current of
                VMap v \<Rightarrow>
                  (case map_of v part of
                     None \<Rightarrow> Inr null_result
                   | Some val \<Rightarrow> walk L val rest)
              | VMapAny v \<Rightarrow>
                  (case map_of v (VString part) of
                     None \<Rightarrow> Inr null_result
                   | Some val \<Rightarrow> walk L val rest)
              | _ \<Rightarrow> Inr null_result)))"
| "handleArrayOperation L current path =
     (case current of
        VSlice arr \<Rightarrow>
          (if path = [] then Inr (makeResult L (VSlice arr))
           else (case collect L arr path of
                   Inl p \<Rightarrow> Inl p
                 | Inr results \<Rightarrow> Inr (makeResult L (VSlice results))))
      | _ \<Rightarrow> Inr null_result)"
| "collect L [] path = Inr []"
| "collect L (item # items) path =
     (case getByPath L item path of
        Inl p \<Rightarrow> Inl p
      | Inr itemResult \<Rightarrow>
          (case collect L items path of
             Inl p \<Rightarrow> Inl p
           | Inr results \<Rightarrow>
               Inr (if Result_Exists itemResult then Result_Value L itemResult # results
                    else results)))"
  by pat_completeness auto
termination
proof -
  have cons: "\<And>p ps. parts_size (p # ps) = Suc (length p) + parts_size ps"
    by (simp add: parts_size_def)
  have split: "parts_size (Split s c) = Suc (length s)" for s c
    by (induction s) (auto simp: parts_size_def split: list.splits)
  have join: "rest \<noteq> [] \<Longrightarrow> Suc (length (Join rest c)) = parts_size rest" for rest c
    by (induction rest c rule: Join.induct) (auto simp: parts_size_def)
  have slice: "slice_str s 1 (int (length s)) = Inr r \<Longrightarrow> Suc (length r) = length s" for s r
    by (auto simp: slice_str_def split: if_splits)
  show ?thesis
    by (relation "measures
          [\<lambda>x. case x of
                 Inl (Inl (L, root_node, path)) \<Rightarrow> Suc (length path)
               | Inl (Inr (L, current, parts)) \<Rightarrow> parts_size parts
               | Inr (Inl (L, current, path)) \<Rightarrow> Suc (length path)
               | Inr (Inr (L, items, path)) \<Rightarrow> Suc (length path),
           \<lambda>x. case x of
                 Inl (Inl (L, root_node, path)) \<Rightarrow> 1
               | Inl (Inr (L, current, parts)) \<Rightarrow> 0
               | Inr (Inl (L, current, path)) \<Rightarrow> 3
               | Inr (Inr (L, items, path)) \<Rightarrow> 2,
           \<lambda>x. case x of
                 Inr (Inr (L, items, path)) \<Rightarrow> length items
               | _ \<Rightarrow> 0]")
       (auto simp: split join cons dest: slice)
qed

section \<open>Public functions\<close>

definition Get :: "('f::{zero,ord}) golib \<Rightarrow> string \<Rightarrow> string \<Rightarrow> panic + 'f Result" where
  "Get L yamlStr path =
     (if length yamlStr = 0 then Inr null_result
      else (case Unmarshal L yamlStr of
              (root_node, ok) \<Rightarrow>
                (if \<not> ok then Inr null_result
                 else if length path = 0 then Inr (null_result\<lparr>Type := YAML, Raw := yamlStr\<rparr>)
                 else getByPath L root_node path)))"

definition Parse :: "('f::zero) golib \<Rightarrow> string \<Rightarrow> 'f Result" where
  "Parse L yamlStr =
     (if length yamlStr = 0 then null_result
      else (case Unmarshal L yamlStr of
              (root_node, ok) \<Rightarrow>
                (if \<not> ok then null_result
                 else null_result\<lparr>Type := YAML, Raw := yamlStr\<rparr>)))"

definition Valid :: "'f golib \<Rightarrow> string \<Rightarrow> bool" where
  "Valid L yamlStr = snd (Unmarshal L yamlStr)"

definition Result_Get :: "('f::{zero,ord}) golib \<Rightarrow> 'f Result \<Rightarrow> string \<Rightarrow> panic + 'f Result" where
  "Result_Get L t path = (if Type t \<noteq> YAML then Inr null_result else Get L (Raw t) path)"

section \<open>A library instance for running examples\<close>

text \<open>The theorems below hold for every library \<open>L\<close>. To run the definitions on
  concrete documents, \<open>sample_lib\<close> fills the parameters in the simplest way: float64
  is replaced by the integers (which float64 represents exactly up to \<open>2 ^ 53\<close>),
  \<open>ParseFloat\<close> accepts decimal integers only, \<open>Marshal\<close> writes a tree in YAML flow
  style, and \<open>Unmarshal\<close> knows the empty document, which \<^verbatim>\<open>yaml.v3\<close> accepts and decodes
  to nil, and the documents of a table, and reports an error for any other text.\<close>

primrec render :: "int node \<Rightarrow> string" where
  "render VNil = ''null''"
| "render (VBool b) = (if b then ''true'' else ''false'')"
| "render (VString s) = s"
| "render (VInt k i) = FormatInt i"
| "render (VUint k n) = FormatUint n"
| "render (VFloat k x) = FormatInt x"
| "render (VSlice xs) = ''['' @ Join (map render xs) (CHR '','') @ '']''"
| "render (VMap kvs) =
     ''{'' @ Join (map (\<lambda>(k, v). k @ '': '' @ v) (map (map_prod id render) kvs)) (CHR '','') @ ''}''"
| "render (VMapAny kvs) =
     ''{'' @ Join (map (\<lambda>(k, v). k @ '': '' @ v) (map (map_prod render render) kvs)) (CHR '','') @ ''}''"
| "render (VOther s) = s"

definition sample_documents :: "(string \<times> int node) list" where
  "sample_documents =
     [(''a: 1'', VMap [(''a'', VInt KInt 1)]),
      (''children: [Sara, Alex, Jack]'',
         VMap [(''children'', VSlice [VString ''Sara'', VString ''Alex'', VString ''Jack''])])]"

definition sample_lib :: "int golib" where
  "sample_lib =
     \<lparr>Unmarshal = (\<lambda>s. if s = [] then (VNil, True)
                        else (case map_of sample_documents s of
                                Some v \<Rightarrow> (v, True)
                              | None \<Rightarrow> (VNil, False))),
      Marshal = (\<lambda>v. Some (render v @ [CHR 0x0A])),
      Sprint_other = render,
      ParseFloat = (\<lambda>s. case ParseInt s of (n, None) \<Rightarrow> Some n | (n, Some e) \<Rightarrow> None),
      FormatFloat = (\<lambda>k x. FormatInt x),
      float64_of_int = (\<lambda>i. i),
      int64_of_float64 = (\<lambda>x. x),
      uint64_of_float64 = (\<lambda>x. x)\<rparr>"

section \<open>Notions used to state the properties\<close>

text \<open>A path segment that the loop of getByPath reads as a map key: not empty, without
  a dot, not starting with \<^verbatim>\<open>#\<close>, and not an integer literal.\<close>

definition plain_key :: "string \<Rightarrow> bool" where
  "plain_key k = (k \<noteq> [] \<and> CHR ''.'' \<notin> set k \<and> hd k \<noteq> CHR ''#'' \<and> Atoi k = None)"

text \<open>The value a container holds under a key, as the map access at the end of the loop
  of getByPath finds it.\<close>

definition field :: "string \<Rightarrow> 'f node \<Rightarrow> 'f node option" where
  "field k item =
     (case item of
        VMap m \<Rightarrow> map_of m k
      | VMapAny m \<Rightarrow> map_of m (VString k)
      | _ \<Rightarrow> None)"

text \<open>An element matches the query \<^verbatim>\<open>#(k=v)\<close>: it is a string-keyed mapping that has
  the field \<open>k\<close>, and \<^verbatim>\<open>%v\<close> prints the value of the field as \<open>v\<close>.\<close>

definition matches_eq :: "'f golib \<Rightarrow> string \<Rightarrow> string \<Rightarrow> 'f node \<Rightarrow> bool" where
  "matches_eq L k v item =
     (case item of
        VMap obj \<Rightarrow> (case map_of obj k of Some val \<Rightarrow> Sprint L val = v | None \<Rightarrow> False)
      | _ \<Rightarrow> False)"

text \<open>An element counts for the broadcast \<^verbatim>\<open>#.k\<close>: it has the field \<open>k\<close> and the Result of
  the value exists. \<open>broadcast_values\<close> is the list that the broadcast collects.\<close>

definition has_value :: "('f::zero) golib \<Rightarrow> string \<Rightarrow> 'f node \<Rightarrow> bool" where
  "has_value L k item =
     (case field k item of Some v \<Rightarrow> Result_Exists (makeResult L v) | None \<Rightarrow> False)"

definition broadcast_values :: "('f::zero) golib \<Rightarrow> string \<Rightarrow> 'f node list \<Rightarrow> 'f node list" where
  "broadcast_values L k arr =
     List.map_filter
       (\<lambda>item. case field k item of
                 Some v \<Rightarrow>
                   (if Result_Exists (makeResult L v) then Some (Result_Value L (makeResult L v))
                    else None)
               | None \<Rightarrow> None)
       arr"

section \<open>Simplifier setup\<close>

text \<open>The equations of the recursive functions are applied by name.\<close>

declare trim_left.simps [simp del]
declare FormatUint.simps [simp del]
declare getByPath.simps [simp del]
declare handleArrayOperation.simps [simp del]
declare find_operator.simps [simp del]

lemmas walk_Cons = walk.simps(2)

declare walk.simps(2) [simp del]

section \<open>Facts about the library functions\<close>

subsection \<open>Splitting and joining\<close>

lemma Split_no_sep: "c \<notin> set s \<Longrightarrow> Split s c = [s]"
  by (induction s) auto

lemma Split_append: "c \<notin> set a \<Longrightarrow> Split (a @ c # b) c = a # Split b c"
  by (induction a) auto

lemma Split_not_Nil: "Split s c \<noteq> []"
  by (induction s) (auto split: list.splits)

lemma Join_Split: "Join (Split s c) c = s"
proof (induction s)
  case Nil
  show ?case by simp
next
  case (Cons x xs)
  show ?case
  proof (cases "x = c")
    case True
    with Cons show ?thesis
      by (cases "Split xs c") (auto simp: Split_not_Nil)
  next
    case False
    obtain p ps where ps: "Split xs c = p # ps"
      using Split_not_Nil [of xs c] by (cases "Split xs c") auto
    with Cons False show ?thesis
      by (cases ps) auto
  qed
qed

lemma Split_no_sep_in_parts: "p \<in> set (Split s c) \<Longrightarrow> c \<notin> set p"
proof (induction s arbitrary: p)
  case Nil
  then show ?case by simp
next
  case (Cons x xs)
  obtain q qs where q: "Split xs c = q # qs"
    using Split_not_Nil [of xs c] by (cases "Split xs c") auto
  with Cons show ?case
    by (cases "x = c") auto
qed

lemma Split_Join:
  "ps \<noteq> [] \<Longrightarrow> (\<And>p. p \<in> set ps \<Longrightarrow> c \<notin> set p) \<Longrightarrow> Split (Join ps c) c = ps"
proof (induction ps c rule: Join.induct)
  case (1 c)
  then show ?case by simp
next
  case (2 p c)
  then show ?case by (simp add: Split_no_sep)
next
  case (3 p q ps c)
  then have "Split (Join (q # ps) c) c = q # ps"
    by simp
  moreover from 3 have "c \<notin> set p"
    by simp
  ultimately show ?case
    by (simp add: Split_append)
qed

lemma Join_not_Nil: "ps \<noteq> [] \<Longrightarrow> (\<And>p. p \<in> set ps \<Longrightarrow> p \<noteq> []) \<Longrightarrow> Join ps c \<noteq> []"
  by (induction ps c rule: Join.induct) auto

subsection \<open>Prefixes, suffixes and cuts\<close>

lemma HasPrefix_Cons: "HasPrefix s (c # p) = (\<exists>t. s = c # t \<and> HasPrefix t p)"
  by (cases s) (auto simp: HasPrefix_def)

lemma HasPrefix_Nil: "HasPrefix s []"
  by (simp add: HasPrefix_def)

lemma HasPrefix_hash: "HasPrefix p (CHR ''#'' # q) \<Longrightarrow> p \<noteq> [] \<and> hd p = CHR ''#''"
  by (cases p) (auto simp: HasPrefix_def)



lemma HasPrefix_rev: "HasPrefix (rev s) (rev r) = HasSuffix s r"
proof (cases "length r \<le> length s")
  case True
  then show ?thesis
    by (auto simp: HasPrefix_def HasSuffix_def take_rev)
next
  case False
  then have "length (take (length r) (rev s)) \<noteq> length (rev r)"
    by simp
  then have "take (length r) (rev s) \<noteq> rev r"
    by metis
  with False show ?thesis
    by (simp add: HasPrefix_def HasSuffix_def)
qed

lemma cut_Some: "cut s sep = Some (a, b) \<Longrightarrow> s = a @ sep @ b"
proof (induction s arbitrary: a)
  case Nil
  then show ?case by simp
next
  case (Cons x xs)
  show ?case
  proof (cases "HasPrefix (x # xs) sep")
    case True
    with Cons.prems have "a = []" and "b = drop (length sep) (x # xs)"
      by auto
    moreover from True have "take (length sep) (x # xs) = sep"
      by (simp add: HasPrefix_def)
    ultimately show ?thesis
      by (metis append_Nil append_take_drop_id)
  next
    case False
    with Cons.prems obtain a' where "cut xs sep = Some (a', b)" and "a = x # a'"
      by (auto split: option.splits)
    with Cons.IH show ?thesis
      by auto
  qed
qed

lemma Contains_set: "Contains s sep \<Longrightarrow> set sep \<subseteq> set s"
  by (auto simp: Contains_def dest!: cut_Some)

lemma cut_first: "c \<notin> set a \<Longrightarrow> cut (a @ c # b) [c] = Some (a, b)"
  by (induction a) (auto simp: HasPrefix_def)

subsection \<open>Trimming\<close>

lemma trim_left_id:
  assumes "\<And>r. r \<in> set runes \<Longrightarrow> r \<noteq> [] \<Longrightarrow> \<not> HasPrefix s r"
  shows "trim_left runes s = s"
proof -
  have "find (\<lambda>r. r \<noteq> [] \<and> HasPrefix s r) runes = None"
    using assms by (auto simp: find_None_iff)
  then show ?thesis
    by (subst trim_left.simps) simp
qed

lemma TrimSpace_id:
  assumes "\<And>r. r \<in> set space_runes \<Longrightarrow> \<not> HasPrefix s r \<and> \<not> HasSuffix s r"
  shows "TrimSpace s = s"
proof -
  have l: "trim_left space_runes s = s"
    using assms by (intro trim_left_id) auto
  have "trim_left (map rev space_runes) (rev s) = rev s"
  proof (rule trim_left_id)
    fix r assume "r \<in> set (map rev space_runes)"
    then obtain r' where "r' \<in> set space_runes" and "r = rev r'"
      by auto
    with assms show "\<not> HasPrefix (rev s) r"
      by (simp add: HasPrefix_rev)
  qed
  with l show ?thesis
    by (simp add: TrimSpace_def)
qed


subsection \<open>Decimal integers\<close>

lemma parse_digits_chars:
  "parse_digits a s = (n, None) \<Longrightarrow> \<forall>c\<in>set s. 48 \<le> (of_char c :: int) \<and> (of_char c :: int) \<le> 57"
  by (induction s arbitrary: a) (auto simp: Let_def split: if_splits)

lemma parse_digits_error_value:
  "parse_digits a s = (m, Some e) \<Longrightarrow> m = (case e of ErrSyntax \<Rightarrow> 0 | ErrRange \<Rightarrow> maxUint64)"
  by (induction s arbitrary: a) (auto simp: Let_def split: if_splits)

lemma ParseUint_error_value:
  "ParseUint s = (m, Some e) \<Longrightarrow> m = (case e of ErrSyntax \<Rightarrow> 0 | ErrRange \<Rightarrow> maxUint64)"
  by (auto simp: ParseUint_def dest: parse_digits_error_value split: if_splits)


lemma Atoi_Some_chars:
  assumes "Atoi s = Some n"
  shows "s \<noteq> []" and "CHR ''.'' \<notin> set s" and "hd s \<noteq> CHR ''#''"
proof -
  from assms obtain x xs where s: "s = x # xs"
    by (cases s) (auto simp: Atoi_def ParseInt_def)
  define body where "body = (if x = CHR ''+'' \<or> x = CHR ''-'' then xs else x # xs)"
  from assms s obtain un where un: "ParseUint body = (un, None)"
    by (auto simp: Atoi_def ParseInt_def Let_def body_def maxUint64_def
             dest!: ParseUint_error_value
             split: prod.splits option.splits NumError.splits if_splits)
  then have "parse_digits 0 body = (un, None)"
    by (auto simp: ParseUint_def split: if_splits)
  then have digits: "\<forall>c\<in>set body. 48 \<le> (of_char c :: int) \<and> (of_char c :: int) \<le> 57"
    using parse_digits_chars by blast
  have all: "c = CHR ''+'' \<or> c = CHR ''-'' \<or> (48 \<le> (of_char c :: int) \<and> (of_char c :: int) \<le> 57)"
    if "c \<in> set s" for c
    using that digits s by (auto simp: body_def split: if_splits)
  show "s \<noteq> []" using s by simp
  show "CHR ''.'' \<notin> set s"
    using all [of "CHR ''.''"] by auto
  show "hd s \<noteq> CHR ''#''"
    using all [of "hd s"] s by auto
qed










section \<open>Results\<close>

lemma null_result_Type: "Type (null_result :: ('f::zero) Result) = Null"
  by (simp add: null_result_def)

lemma makeResult_VNil: "makeResult L VNil = null_result"
  by (simp add: makeResult_def)

lemma makeResult_Null: "Type (makeResult L v) = Null \<Longrightarrow> makeResult L v = null_result"
  by (cases v) (auto simp: makeResult_def null_result_def split: option.splits if_splits)

lemma Result_Exists_makeResult:
  "Result_Exists (makeResult L v) =
     (case v of
        VNil \<Rightarrow> False
      | VSlice xs \<Rightarrow> Marshal L v \<noteq> None
      | VMap m \<Rightarrow> Marshal L v \<noteq> None
      | VMapAny m \<Rightarrow> Marshal L v \<noteq> None
      | VOther s \<Rightarrow> Marshal L v \<noteq> None
      | _ \<Rightarrow> True)"
  by (cases v) (auto simp: Result_Exists_def makeResult_def null_result_def split: option.splits)

lemma first_match_Null:
  "Type (first_match L arr key operator val) = Null \<Longrightarrow>
   first_match L arr key operator val = null_result"
  by (induction arr) (auto simp: makeResult_Null split: node.splits option.splits if_splits)

lemma handleArrayQuery_Null:
  "Type (handleArrayQuery L current query) = Null \<Longrightarrow> handleArrayQuery L current query = null_result"
  by (cases current)
     (auto simp: handleArrayQuery_def first_match_Null split: prod.splits list.splits if_splits)

lemma handleArrayQuery_not_slice:
  "(\<And>v. current \<noteq> VSlice v) \<Longrightarrow> handleArrayQuery L current query = null_result"
  by (cases current) (auto simp: handleArrayQuery_def)

lemma handleArrayOperation_not_slice:
  "(\<And>v. current \<noteq> VSlice v) \<Longrightarrow> handleArrayOperation L current path = Inr null_result"
  by (cases current) (auto simp: handleArrayOperation.simps)

section \<open>The steps of the loop of getByPath\<close>

text \<open>One equation for each branch of the loop body, under the condition that selects
  the branch. The two slice expressions of the loop are within bounds in their
  branches.\<close>

lemma slice_query:
  assumes "HasPrefix part ''#(''" and "HasSuffix part '')''"
  shows "slice_str part 2 (int (length part) - 1) = Inr (take (length part - 3) (drop 2 part))"
proof -
  from assms(1) obtain rest where p: "part = CHR ''#'' # CHR ''('' # rest"
    by (auto simp: HasPrefix_Cons)
  with assms(2) have "rest \<noteq> []"
    by (auto simp: HasSuffix_def)
  then obtain x xs where "rest = x # xs"
    by (cases rest) auto
  with p show ?thesis
    by (simp add: slice_str_def nat_diff_distrib')
qed

lemma slice_tail: "part \<noteq> [] \<Longrightarrow> slice_str part 1 (int (length part)) = Inr (tl part)"
  by (cases part) (auto simp: slice_str_def)

lemma getByPath_walk: "path \<noteq> [] \<Longrightarrow> getByPath L root_node path = walk L root_node (Split path (CHR ''.''))"
  by (simp add: getByPath.simps)

lemma getByPath_empty: "getByPath L root_node [] = Inr (makeResult L root_node)"
  by (cases root_node) (auto simp: getByPath.simps makeResult_def split: option.splits)

lemma walk_empty: "walk L current ([] # rest) = walk L current rest"
  by (simp add: walk_Cons)

lemma walk_hash_last:
  "walk L current [''#''] =
     (case current of
        VSlice v \<Rightarrow> Inr (null_result\<lparr>Type := Number, Num := float64_of_int L (int (length v))\<rparr>)
      | VMap v \<Rightarrow> Inr (null_result\<lparr>Type := Number, Num := float64_of_int L (int (length v))\<rparr>)
      | _ \<Rightarrow> Inr null_result)"
  by (simp add: walk_Cons)

lemma walk_hash_more:
  "rest \<noteq> [] \<Longrightarrow>
   walk L current (''#'' # rest) = handleArrayOperation L current (Join rest (CHR ''.''))"
  by (simp add: walk_Cons)

lemma walk_query:
  assumes "HasPrefix part ''#(''" and "HasSuffix part '')''"
  shows "walk L current (part # rest) =
     (let result = handleArrayQuery L current (take (length part - 3) (drop 2 part)) in
      if \<not> Result_Exists result then Inr result
      else if rest \<noteq> [] then
        (if Type result = YAML then
           (case Unmarshal L (Raw result) of
              (parsed, ok) \<Rightarrow>
                (if \<not> ok then Inr null_result
                 else getByPath L parsed (Join rest (CHR ''.''))))
         else getByPath L (Result_Value L result) (Join rest (CHR ''.'')))
      else Inr result)"
proof -
  from assms(1) have "part \<noteq> []" and "part \<noteq> ''#''"
    by (auto simp: HasPrefix_Cons)
  with assms show ?thesis
    by (simp add: walk_Cons slice_query)
qed

lemma walk_hash_prefix:
  assumes "HasPrefix part ''#''" and "part \<noteq> ''#''"
    and "\<not> (HasPrefix part ''#('' \<and> HasSuffix part '')'')"
  shows "walk L current (part # rest) =
     (case (case current of VMap obj \<Rightarrow> map_of obj part | _ \<Rightarrow> None) of
        Some v \<Rightarrow> walk L v rest
      | None \<Rightarrow> handleArrayOperation L current (tl part))"
proof -
  from assms(1) have "part \<noteq> []"
    by (auto simp: HasPrefix_Cons)
  with assms show ?thesis
    by (auto simp: walk_Cons slice_tail split: option.splits)
qed

lemma walk_other:
  assumes "part \<noteq> []" and "\<not> HasPrefix part ''#''"
  shows "walk L current (part # rest) =
     (case Atoi part of
        Some idx \<Rightarrow>
          (case current of
             VSlice v \<Rightarrow>
               (if idx < 0 \<or> idx \<ge> int (length v) then Inr null_result
                else walk L (v ! nat idx) rest)
           | _ \<Rightarrow> Inr null_result)
      | None \<Rightarrow> (case field part current of None \<Rightarrow> Inr null_result | Some v \<Rightarrow> walk L v rest))"
proof -
  from assms have "part \<noteq> ''#''" and "\<not> HasPrefix part ''#(''"
    by (auto simp: HasPrefix_Cons HasPrefix_Nil)
  with assms show ?thesis
    by (cases "Atoi part"; cases current)
       (simp_all add: walk_Cons index_node_def field_def split: option.splits)
qed

lemma walk_integer:
  assumes "Atoi part = Some idx"
  shows "walk L current (part # rest) =
     (case current of
        VSlice v \<Rightarrow> (if idx < 0 \<or> idx \<ge> int (length v) then Inr null_result
                      else walk L (v ! nat idx) rest)
      | _ \<Rightarrow> Inr null_result)"
proof -
  from Atoi_Some_chars [OF assms] have "part \<noteq> []" and hd: "hd part \<noteq> CHR ''#''"
    by simp_all
  then have "part \<noteq> ''#''" and "\<not> HasPrefix part ''#(''" and "\<not> HasPrefix part ''#''"
    using HasPrefix_hash by auto
  with \<open>part \<noteq> []\<close> assms show ?thesis
    by (auto simp: walk_Cons index_node_def split: node.splits)
qed

lemma walk_key:
  assumes "plain_key k"
  shows "walk L current (k # rest) =
     (case field k current of None \<Rightarrow> Inr null_result | Some v \<Rightarrow> walk L v rest)"
proof -
  from assms have "k \<noteq> []" and "hd k \<noteq> CHR ''#''" and "Atoi k = None"
    by (simp_all add: plain_key_def)
  then have "k \<noteq> ''#''" and "\<not> HasPrefix k ''#(''" and "\<not> HasPrefix k ''#''"
    using HasPrefix_hash by auto
  with \<open>k \<noteq> []\<close> \<open>Atoi k = None\<close> show ?thesis
    by (auto simp: walk_Cons field_def split: node.splits option.splits)
qed

lemma walk_VNil: "walk L VNil parts = Inr null_result"
proof (induction parts)
  case Nil
  show ?case by (simp add: makeResult_VNil)
next
  case (Cons part rest)
  consider "part = []" | "part = ''#''"
    | "HasPrefix part ''#(''" "HasSuffix part '')''"
    | "HasPrefix part ''#''" "part \<noteq> ''#''" "\<not> (HasPrefix part ''#('' \<and> HasSuffix part '')'')"
    | "part \<noteq> []" "\<not> HasPrefix part ''#''"
    by blast
  then show ?case
  proof cases
    case 1
    with Cons show ?thesis by (simp add: walk_empty)
  next
    case 2
    then show ?thesis
      by (cases "rest = []")
         (simp_all add: walk_hash_last walk_hash_more handleArrayOperation_not_slice)
  next
    case 3
    then show ?thesis
      by (simp add: walk_query handleArrayQuery_not_slice Result_Exists_def null_result_Type)
  next
    case 4
    then show ?thesis
      by (simp add: walk_hash_prefix handleArrayOperation_not_slice)
  next
    case 5
    then show ?thesis
      by (simp add: walk_other field_def split: option.splits)
  qed
qed

lemma getByPath_plain_key:
  assumes "plain_key k"
  shows "getByPath L item k =
     (case field k item of None \<Rightarrow> Inr null_result | Some v \<Rightarrow> Inr (makeResult L v))"
proof -
  from assms have "k \<noteq> []" and "CHR ''.'' \<notin> set k"
    by (simp_all add: plain_key_def)
  then have "getByPath L item k = walk L item [k]"
    by (simp add: getByPath_walk Split_no_sep)
  then show ?thesis
    by (simp add: walk_key [OF assms] split: option.splits)
qed

section \<open>Facts about the examples\<close>

lemma sample_Unmarshal_empty: "Unmarshal sample_lib [] = (VNil, True)"
  by (simp add: sample_lib_def)

lemma sample_ParseFloat_bob: "ParseFloat sample_lib ''bob'' = None"
  by (simp add: sample_lib_def ParseInt_def ParseUint_def)

lemma plain_key_arr: "plain_key ''arr''"
  by (simp add: plain_key_def Atoi_def ParseInt_def ParseUint_def)

lemma plain_key_a: "plain_key ''a''"
  by (simp add: plain_key_def Atoi_def ParseInt_def ParseUint_def)

lemma plain_key_k: "plain_key ''k''"
  by (simp add: plain_key_def Atoi_def ParseInt_def ParseUint_def)

lemma plain_key_paren: "plain_key ''(k=a''"
  by (simp add: plain_key_def Atoi_def ParseInt_def ParseUint_def)

lemma Atoi_0: "Atoi ''0'' = Some 0"
  by (simp add: Atoi_def ParseInt_def ParseUint_def maxUint64_def)

lemma TrimSpace_name: "TrimSpace ''name'' = ''name''"
  by (rule TrimSpace_id) (auto simp: space_runes_def HasPrefix_def HasSuffix_def)

lemma TrimSpace_5: "TrimSpace ''5'' = ''5''"
  by (rule TrimSpace_id) (auto simp: space_runes_def HasPrefix_def HasSuffix_def)

lemma TrimSpace_k: "TrimSpace ''k'' = ''k''"
  by (rule TrimSpace_id) (auto simp: space_runes_def HasPrefix_def HasSuffix_def)

lemma TrimSpace_b: "TrimSpace ''b'' = ''b''"
  by (rule TrimSpace_id) (auto simp: space_runes_def HasPrefix_def HasSuffix_def)

lemma getByPath_arr:
  "getByPath L (VMap [(''arr'', v)]) (''arr'' @ CHR ''.'' # others) = walk L v (Split others (CHR ''.''))"
  by (simp add: getByPath_walk Split_append walk_key [OF plain_key_arr] field_def)

section \<open>Resolution returns\<close>

text \<open>getByPath, and with it Get and Result.Get, returns a Result for every library, tree
  and path: none of the slice and index expressions panics, and the recursion ends (the
  termination proof of the definition). This is the part of claim C1 that holds.\<close>

lemma resolution_never_panics:
  fixes L :: "('f::{zero,ord}) golib"
  shows "\<exists>r. getByPath L root_node path = Inr r"
    and "\<exists>r. walk L current parts = Inr r"
    and "\<exists>r. handleArrayOperation L current path' = Inr r"
    and "\<exists>rs. collect L items path'' = Inr rs"
proof (induction L root_node path and L current parts and L current path' and L items path''
       rule: getByPath_walk_handleArrayOperation_collect.induct)
  case (1 L root_node path)
  show ?case
  proof (cases "path = []")
    case True
    then show ?thesis
      by (cases root_node) (auto simp: getByPath.simps split: option.splits)
  next
    case False
    with 1 show ?thesis
      by (simp add: getByPath.simps)
  qed
next
  case (2 L current)
  show ?case by simp
next
  case (3 L current part rest)
  consider "part = []" | "part = ''#''"
    | "HasPrefix part ''#(''" "HasSuffix part '')''"
    | "HasPrefix part ''#''" "part \<noteq> ''#''" "\<not> (HasPrefix part ''#('' \<and> HasSuffix part '')'')"
    | "part \<noteq> []" "\<not> HasPrefix part ''#''"
    by blast
  then show ?case
  proof cases
    case 1
    with 3(1) show ?thesis
      by (simp add: walk_empty)
  next
    case 2
    with 3(2) show ?thesis
      by (cases "rest = []") (auto simp: walk_hash_last walk_hash_more split: node.splits)
  next
    case c: 3
    then have ne: "part \<noteq> []" "part \<noteq> ''#''"
      by (auto simp: HasPrefix_Cons)
    note q = slice_query [OF c]
    define x where "x = handleArrayQuery L current (take (length part - 3) (drop 2 part))"
    show ?thesis
    proof (cases "Result_Exists x \<and> rest \<noteq> []")
      case False
      with c show ?thesis
        by (auto simp: walk_query Let_def x_def)
    next
      case True
      show ?thesis
      proof (cases "Type x = YAML")
        case y: True
        obtain xa ok where u: "Unmarshal L (Raw x) = (xa, ok)"
          by (cases "Unmarshal L (Raw x)") auto
        show ?thesis
        proof (cases ok)
          case False
          with c True y u show ?thesis
            by (simp add: walk_query Let_def x_def [symmetric])
        next
          case ok: True
          have "\<exists>r. getByPath L xa (Join rest (CHR ''.'')) = Inr r"
            using 3(3) [OF ne(1) ne(2) _ q x_def _ _ y u [symmetric]] c True ok by simp
          with c True y u ok show ?thesis
            by (simp add: walk_query Let_def x_def [symmetric])
        qed
      next
        case n: False
        have "\<exists>r. getByPath L (Result_Value L x) (Join rest (CHR ''.'')) = Inr r"
          using 3(4) [OF ne(1) ne(2) _ q x_def _ _ n] c True by simp
        with c True n show ?thesis
          by (simp add: walk_query Let_def x_def [symmetric])
      qed
    qed
  next
    case c: 4
    then have ne: "part \<noteq> []"
      by (auto simp: HasPrefix_Cons)
    show ?thesis
    proof (cases "case current of VMap obj \<Rightarrow> map_of obj part | _ \<Rightarrow> None")
      case None
      with 3(5) [OF ne c(2) c(3) _ None slice_tail [OF ne]] c show ?thesis
        by (simp add: walk_hash_prefix)
    next
      case (Some v)
      with 3(6) [OF ne c(2) c(3) _ Some] c show ?thesis
        by (simp add: walk_hash_prefix)
    qed
  next
    case c: 5
    then have n: "part \<noteq> ''#''" "\<not> (HasPrefix part ''#('' \<and> HasSuffix part '')'')"
      "\<not> (HasPrefix part ''#'' \<and> part \<noteq> ''#'')"
      by (auto simp: HasPrefix_Cons HasPrefix_Nil)
    show ?thesis
    proof (cases "Atoi part")
      case None
      show ?thesis
      proof (cases "field part current")
        case f: None
        with c None show ?thesis
          by (simp add: walk_other)
      next
        case f: (Some v)
        then have "\<exists>r. walk L v rest = Inr r"
          using 3(7) [OF c(1) n None] 3(8) [OF c(1) n None]
          by (cases current) (auto simp: field_def)
        with c None f show ?thesis
          by (simp add: walk_other)
      qed
    next
      case (Some idx)
      show ?thesis
      proof (cases current)
        case (VSlice v)
        show ?thesis
        proof (cases "idx < 0 \<or> idx \<ge> int (length v)")
          case True
          with c Some VSlice show ?thesis
            by (simp add: walk_other)
        next
          case False
          then have i: "index_node v idx = Inr (v ! nat idx)"
            by (simp add: index_node_def)
          have "\<exists>r. walk L (v ! nat idx) rest = Inr r"
            using 3(9) [OF c(1) n Some VSlice False i] .
          with c Some VSlice False show ?thesis
            by (simp add: walk_other)
        qed
      qed (use c Some in \<open>simp_all add: walk_other\<close>)
    qed
  qed
next
  case (4 L current path)
  show ?case
  proof (cases current)
    case (VSlice arr)
    with 4 show ?thesis
      by (cases "path = []") (auto simp: handleArrayOperation.simps)
  qed (simp_all add: handleArrayOperation.simps)
next
  case (5 L path)
  show ?case by simp
next
  case (6 L item items path)
  then show ?case
    by auto
qed

lemma Get_never_panics:
  fixes L :: "('f::{zero,ord}) golib"
  shows "\<exists>r. Get L yamlStr path = Inr r" and "\<exists>r. Result_Get L t path = Inr r"
proof -
  show g: "\<exists>r. Get L yamlStr path = Inr r" for yamlStr
    using resolution_never_panics(1) [of L]
    by (auto simp: Get_def split: prod.splits)
  then show "\<exists>r. Result_Get L t path = Inr r"
    by (simp add: Result_Get_def)
qed

text \<open>Every Result of Type Null that resolution returns is the same value.\<close>

lemma null_results_are_equal:
  fixes L :: "('f::{zero,ord}) golib"
  shows "getByPath L root_node path = Inr r \<Longrightarrow> Type r = Null \<Longrightarrow> r = null_result"
    and "walk L current parts = Inr r \<Longrightarrow> Type r = Null \<Longrightarrow> r = null_result"
    and "handleArrayOperation L current path' = Inr r \<Longrightarrow> Type r = Null \<Longrightarrow> r = null_result"
    and "collect L items path'' = Inr rs \<Longrightarrow> True"
proof (induction L root_node path and L current parts and L current path' and L items path''
       arbitrary: r and r and r and rs
       rule: getByPath_walk_handleArrayOperation_collect.induct)
  case (1 L root_node path)
  show ?case
  proof (cases "path = []")
    case True
    with 1(2,3) show ?thesis
      by (cases root_node)
         (auto simp: getByPath.simps makeResult_Null null_result_def split: option.splits)
  next
    case False
    with 1 show ?thesis
      by (simp add: getByPath.simps)
  qed
next
  case (2 L current)
  then show ?case by (auto simp: makeResult_Null)
next
  case (3 L current part rest)
  consider "part = []" | "part = ''#''"
    | "HasPrefix part ''#(''" "HasSuffix part '')''"
    | "HasPrefix part ''#''" "part \<noteq> ''#''" "\<not> (HasPrefix part ''#('' \<and> HasSuffix part '')'')"
    | "part \<noteq> []" "\<not> HasPrefix part ''#''"
    by blast
  then show ?case
  proof cases
    case 1
    with 3(1) [OF 1] 3(10,11) show ?thesis
      by (simp add: walk_empty)
  next
    case 2
    show ?thesis
    proof (cases "rest = []")
      case True
      with 2 3(10,11) show ?thesis
        by (auto simp: walk_hash_last null_result_def split: node.splits)
    next
      case False
      with 2 3(2) 3(10,11) show ?thesis
        by (simp add: walk_hash_more)
    qed
  next
    case c: 3
    then have ne: "part \<noteq> []" "part \<noteq> ''#''"
      by (auto simp: HasPrefix_Cons)
    note q = slice_query [OF c]
    define x where "x = handleArrayQuery L current (take (length part - 3) (drop 2 part))"
    show ?thesis
    proof (cases "Result_Exists x \<and> rest \<noteq> []")
      case False
      have "Type x = Null \<Longrightarrow> x = null_result"
        unfolding x_def by (rule handleArrayQuery_Null)
      with False c 3(10,11) show ?thesis
        by (auto simp: walk_query Let_def x_def [symmetric] Result_Exists_def split: if_splits)
    next
      case True
      show ?thesis
      proof (cases "Type x = YAML")
        case y: True
        obtain xa ok where u: "Unmarshal L (Raw x) = (xa, ok)"
          by (cases "Unmarshal L (Raw x)") auto
        show ?thesis
        proof (cases ok)
          case False
          with c True y u 3(10) show ?thesis
            by (simp add: walk_query Let_def x_def [symmetric])
        next
          case ok: True
          with c True y u 3(10) have "getByPath L xa (Join rest (CHR ''.'')) = Inr r"
            by (simp add: walk_query Let_def x_def [symmetric])
          then show ?thesis
            using 3(3) [OF ne(1) ne(2) _ q x_def _ _ y u [symmetric]] c True ok 3(11) by simp
        qed
      next
        case n: False
        with c True 3(10) have "getByPath L (Result_Value L x) (Join rest (CHR ''.'')) = Inr r"
          by (simp add: walk_query Let_def x_def [symmetric])
        then show ?thesis
          using 3(4) [OF ne(1) ne(2) _ q x_def _ _ n] c True 3(11) by simp
      qed
    qed
  next
    case c: 4
    then have ne: "part \<noteq> []"
      by (auto simp: HasPrefix_Cons)
    show ?thesis
    proof (cases "case current of VMap obj \<Rightarrow> map_of obj part | _ \<Rightarrow> None")
      case None
      with 3(5) [OF ne c(2) c(3) _ None slice_tail [OF ne]] c 3(10,11) show ?thesis
        by (simp add: walk_hash_prefix)
    next
      case (Some v)
      with 3(6) [OF ne c(2) c(3) _ Some] c 3(10,11) show ?thesis
        by (simp add: walk_hash_prefix)
    qed
  next
    case c: 5
    then have n: "part \<noteq> ''#''" "\<not> (HasPrefix part ''#('' \<and> HasSuffix part '')'')"
      "\<not> (HasPrefix part ''#'' \<and> part \<noteq> ''#'')"
      by (auto simp: HasPrefix_Cons HasPrefix_Nil)
    show ?thesis
    proof (cases "Atoi part")
      case None
      show ?thesis
      proof (cases "field part current")
        case f: None
        with c None 3(10) show ?thesis
          by (simp add: walk_other)
      next
        case f: (Some v)
        with c None 3(10) have w: "walk L v rest = Inr r"
          by (simp add: walk_other)
        from f show ?thesis
          using 3(7) [OF c(1) n None _ _ w 3(11)] 3(8) [OF c(1) n None _ _ w 3(11)]
          by (cases current) (auto simp: field_def)
      qed
    next
      case (Some idx)
      show ?thesis
      proof (cases current)
        case (VSlice v)
        show ?thesis
        proof (cases "idx < 0 \<or> idx \<ge> int (length v)")
          case True
          with c Some VSlice 3(10) show ?thesis
            by (simp add: walk_other)
        next
          case False
          then have i: "index_node v idx = Inr (v ! nat idx)"
            by (simp add: index_node_def)
          from c Some VSlice False 3(10) have "walk L (v ! nat idx) rest = Inr r"
            by (simp add: walk_other)
          then show ?thesis
            using 3(9) [OF c(1) n Some VSlice False i _ 3(11)] by simp
        qed
      qed (use c Some 3(10) in \<open>simp_all add: walk_other\<close>)
    qed
  qed
next
  case (4 L current path)
  show ?case
  proof (cases current)
    case (VSlice arr)
    with 4(2,3) show ?thesis
      by (auto simp: handleArrayOperation.simps makeResult_Null split: if_splits sum.splits)
  qed (use 4(2) in \<open>simp_all add: handleArrayOperation.simps\<close>)
next
  case (5 L path)
  show ?case by simp
next
  case (6 L item items path)
  show ?case by simp
qed

section \<open>Ordering operators on values that are not numbers (C3, C1)\<close>

lemma compareNumbers_incomparable:
  "ParseFloat L expected = None \<Longrightarrow> compareNumbers L val expected = 0"
  by (simp add: compareNumbers_def Let_def split: option.splits)

lemma compareNumbers_not_a_number:
  "ParseFloat L s = None \<Longrightarrow> compareNumbers L (VString s) expected = 0"
  by (simp add: compareNumbers_def Sprint_def)

lemma matchesCondition_incomparable:
  assumes "compareNumbers L val expected = 0"
  shows "matchesCondition L val ''>='' expected" and "matchesCondition L val ''<='' expected"
    and "\<not> matchesCondition L val ''>'' expected" and "\<not> matchesCondition L val ''<'' expected"
  using assms by (simp_all add: matchesCondition_def)

lemma find_operator_name_ge_5:
  "find_operator ''name>=5'' [''>='', ''<='', ''!='', ''>'', ''<'', ''=''] = (''name'', ''>='', ''5'')"
  by (simp add: find_operator.simps Contains_def SplitN2_def HasPrefix_def TrimSpace_name TrimSpace_5
      Trim_def quotes_def)

text \<open>Claim C1 lists a non-numeric comparison among the mismatches that yield Null. For
  the operator \<^verbatim>\<open>>=\<close> the query returns the element instead: in the document
  \<^verbatim>\<open>arr: [{name: bob}]\<close> the path \<^verbatim>\<open>arr.#(name>=5)\<close> resolves to the Container of the first
  element. Resolution does return on every input (\<open>resolution_never_panics\<close>).\<close>

theorem non_numeric_ge_query_returns_element:
  "getByPath sample_lib (VMap [(''arr'', VSlice [VMap [(''name'', VString ''bob'')]])]) ''arr.#(name>=5)'' =
     Inr (makeResult sample_lib (VMap [(''name'', VString ''bob'')])) \<and>
   Type (makeResult sample_lib (VMap [(''name'', VString ''bob'')])) = YAML"
proof -
  have m: "matchesCondition sample_lib (VString ''bob'') ''>='' ''5''"
    using matchesCondition_incomparable [OF compareNumbers_not_a_number [OF sample_ParseFloat_bob]]
    by simp
  have t: "Type (makeResult sample_lib (VMap [(''name'', VString ''bob'')])) = YAML"
    by (simp add: sample_lib_def makeResult_def null_result_def)
  have q: "handleArrayQuery sample_lib (VSlice [VMap [(''name'', VString ''bob'')]]) ''name>=5'' =
      makeResult sample_lib (VMap [(''name'', VString ''bob'')])"
    by (simp add: handleArrayQuery_def find_operator_name_ge_5 m)
  have p: "HasPrefix ''#(name>=5)'' ''#(''" "HasSuffix ''#(name>=5)'' '')''"
    by (simp_all add: HasPrefix_def HasSuffix_def)
  show ?thesis
    using getByPath_arr [of sample_lib "VSlice [VMap [(''name'', VString ''bob'')]]" "''#(name>=5)''"]
    by (simp add: walk_query [OF p] q t Result_Exists_def)
qed

text \<open>Claim C3 says that an element whose subject or literal does not parse as a number
  satisfies none of the four ordering operators. compareNumbers returns 0 both for
  equal and for incomparable operands, and matchesCondition tests the operators
  \<^verbatim>\<open>>=\<close> and \<^verbatim>\<open><=\<close> against 0: the string \<^verbatim>\<open>bob\<close> does not parse as a number, and yet
  it satisfies \<^verbatim>\<open>>= 5\<close> and \<^verbatim>\<open><= 5\<close>, while it satisfies neither \<^verbatim>\<open>> 5\<close> nor \<^verbatim>\<open>< 5\<close>.\<close>

theorem non_numeric_subject_satisfies_ge:
  "ParseFloat sample_lib ''bob'' = None \<and>
   matchesCondition sample_lib (VString ''bob'') ''>='' ''5'' \<and>
   matchesCondition sample_lib (VString ''bob'') ''<='' ''5'' \<and>
   \<not> matchesCondition sample_lib (VString ''bob'') ''>'' ''5'' \<and>
   \<not> matchesCondition sample_lib (VString ''bob'') ''<'' ''5''"
  using matchesCondition_incomparable [OF compareNumbers_not_a_number [OF sample_ParseFloat_bob]]
  by (simp add: sample_ParseFloat_bob)

section \<open>Queries with the equality operator (C2)\<close>

lemma find_operator_eq:
  assumes "CHR ''<'' \<notin> set k \<union> set v" and "CHR ''>'' \<notin> set k \<union> set v"
    and "CHR ''='' \<notin> set k" and "\<not> Contains (k @ ''='' @ v) ''!=''"
  shows "find_operator (k @ CHR ''='' # v) [''>='', ''<='', ''!='', ''>'', ''<'', ''=''] =
           (TrimSpace k, ''='', Trim (TrimSpace v) quotes)"
proof -
  let ?q = "k @ CHR ''='' # v"
  from assms have "CHR ''<'' \<notin> set ?q" and "CHR ''>'' \<notin> set ?q"
    by auto
  then have "\<not> Contains ?q ''>=''" and "\<not> Contains ?q ''<=''"
    and "\<not> Contains ?q ''>''" and "\<not> Contains ?q ''<''"
    using Contains_set [of ?q] by fastforce+
  moreover from assms have "\<not> Contains ?q ''!=''"
    by simp
  moreover from assms have "cut ?q ''='' = Some (k, v)"
    using cut_first [of "CHR ''=''" k v] by simp
  ultimately show ?thesis
    by (simp add: find_operator.simps Contains_def SplitN2_def)
qed

lemma first_match_eq:
  "k \<noteq> [] \<Longrightarrow>
   first_match L arr k ''='' v =
     (case find (matches_eq L k v) arr of None \<Rightarrow> null_result | Some item \<Rightarrow> makeResult L item)"
  by (induction arr)
     (auto simp: matches_eq_def matchesCondition_def split: node.splits option.splits)

lemma handleArrayQuery_eq:
  assumes "CHR ''<'' \<notin> set k \<union> set v" and "CHR ''>'' \<notin> set k \<union> set v"
    and "CHR ''='' \<notin> set k" and "\<not> Contains (k @ ''='' @ v) ''!=''"
    and "TrimSpace k \<noteq> []"
  shows "handleArrayQuery L (VSlice arr) (k @ CHR ''='' # v) =
     (case find (matches_eq L (TrimSpace k) (Trim (TrimSpace v) quotes)) arr of
        None \<Rightarrow> null_result
      | Some item \<Rightarrow> makeResult L item)"
  using assms(5) by (simp add: handleArrayQuery_def find_operator_eq [OF assms(1-4)] first_match_eq)

lemma query_path_split:
  assumes "CHR ''.'' \<notin> set k" and "CHR ''.'' \<notin> set v"
  shows "Split (''arr.#('' @ k @ ''='' @ v @ '')'') (CHR ''.'') = [''arr'', ''#('' @ k @ ''='' @ v @ '')'']"
  using assms Split_append [of "CHR ''.''" "''arr''" "''#('' @ k @ ''='' @ v @ '')''"]
  by (simp add: Split_no_sep)

lemma query_part:
  "HasPrefix (''#('' @ k @ ''='' @ v @ '')'') ''#(''"
  "HasSuffix (''#('' @ k @ ''='' @ v @ '')'') '')''"
  "take (length (''#('' @ k @ ''='' @ v @ '')'') - 3) (drop 2 (''#('' @ k @ ''='' @ v @ '')'')) = k @ CHR ''='' # v"
  by (simp_all add: HasPrefix_def HasSuffix_def)

lemma getByPath_query:
  assumes "CHR ''.'' \<notin> set k" and "CHR ''.'' \<notin> set v"
  shows "getByPath L doc (''arr.#('' @ k @ ''='' @ v @ '')'') =
     (case field ''arr'' doc of
        None \<Rightarrow> Inr null_result
      | Some x \<Rightarrow> Inr (handleArrayQuery L x (k @ CHR ''='' # v)))"
proof -
  have "getByPath L doc (''arr.#('' @ k @ ''='' @ v @ '')'') =
          walk L doc [''arr'', ''#('' @ k @ ''='' @ v @ '')'']"
    using query_path_split [OF assms] by (simp add: getByPath_walk)
  also have "\<dots> = (case field ''arr'' doc of
        None \<Rightarrow> Inr null_result
      | Some x \<Rightarrow> walk L x [''#('' @ k @ ''='' @ v @ '')''])"
    by (rule walk_key [OF plain_key_arr])
  also have "\<dots> = (case field ''arr'' doc of
        None \<Rightarrow> Inr null_result
      | Some x \<Rightarrow> Inr (handleArrayQuery L x (k @ CHR ''='' # v)))"
    using query_part [of k v]
    by (simp add: walk_query Let_def split: option.splits)
  finally show ?thesis .
qed

lemma TrimSpace_Nil: "TrimSpace [] = []"
  by (rule TrimSpace_id) (auto simp: space_runes_def HasPrefix_def HasSuffix_def)

lemma TrimSpace_v: "TrimSpace ''v'' = ''v''"
  by (rule TrimSpace_id) (auto simp: space_runes_def HasPrefix_def HasSuffix_def)

lemma TrimSpace_k_eq_a: "TrimSpace ''k=a'' = ''k=a''"
  by (rule TrimSpace_id) (auto simp: space_runes_def HasPrefix_def HasSuffix_def)

lemma TrimSpace_quoted_b: "TrimSpace [CHR 0x22, CHR ''b'', CHR 0x22] = [CHR 0x22, CHR ''b'', CHR 0x22]"
  by (rule TrimSpace_id) (auto simp: space_runes_def HasPrefix_def HasSuffix_def)

lemma find_operator_k_eq_a_lt_b:
  "find_operator ''k=a<b'' [''>='', ''<='', ''!='', ''>'', ''<'', ''=''] = (''k=a'', ''<'', ''b'')"
  by (simp add: find_operator.simps Contains_def SplitN2_def HasPrefix_def TrimSpace_k_eq_a TrimSpace_b
      Trim_def quotes_def)

lemma find_operator_eq_v:
  "find_operator ''=v'' [''>='', ''<='', ''!='', ''>'', ''<'', ''=''] = ([], ''='', ''v'')"
  by (simp add: find_operator.simps Contains_def SplitN2_def HasPrefix_def TrimSpace_Nil TrimSpace_v
      Trim_def quotes_def)

text \<open>Claim C2, as stated, holds for every key \<open>k\<close> and literal \<open>v\<close>. Four inputs show
  where it does not. The documented way to write a string literal is in quotes, and the
  query removes them: \<^verbatim>\<open>arr.#(k="b")\<close> returns the element \<^verbatim>\<open>{k: b}\<close>, whose field prints as
  \<^verbatim>\<open>b\<close> and not as the quoted text. The query is cut at the first operator found in the
  order \<^verbatim>\<open>>= <= != > < =\<close>: in \<^verbatim>\<open>arr.#(k=a<b)\<close> the key is \<^verbatim>\<open>k=a\<close>, so the element
  \<^verbatim>\<open>{k: a<b}\<close> is not found and the result is Null. With an empty key the query looks at
  the elements that are not mappings: \<^verbatim>\<open>arr.#(=v)\<close> returns the string \<^verbatim>\<open>v\<close> of the sequence,
  which has no field at all. The path is split at every dot before the query segment is
  recognised: with the element \<^verbatim>\<open>{k: a.b}\<close> the path \<^verbatim>\<open>arr.#(k=a.b)\<close> yields an empty
  Container, neither the element nor Null.\<close>

theorem query_literal_counterexample:
  "\<not> matches_eq sample_lib ''k'' [CHR 0x22, CHR ''b'', CHR 0x22] (VMap [(''k'', VString ''b'')]) \<and>
   getByPath sample_lib (VMap [(''arr'', VSlice [VMap [(''k'', VString ''b'')]])])
       (''arr.#(k='' @ [CHR 0x22, CHR ''b'', CHR 0x22] @ '')'') =
     Inr (makeResult sample_lib (VMap [(''k'', VString ''b'')])) \<and>
   makeResult sample_lib (VMap [(''k'', VString ''b'')]) \<noteq> null_result \<and>
   matches_eq sample_lib ''k'' ''a<b'' (VMap [(''k'', VString ''a<b'')]) \<and>
   getByPath sample_lib (VMap [(''arr'', VSlice [VMap [(''k'', VString ''a<b'')]])]) ''arr.#(k=a<b)'' =
     Inr null_result \<and>
   makeResult sample_lib (VMap [(''k'', VString ''a<b'')]) \<noteq> null_result \<and>
   \<not> matches_eq sample_lib [] ''v'' (VString ''v'') \<and>
   getByPath sample_lib (VMap [(''arr'', VSlice [VString ''v''])]) ''arr.#(=v)'' =
     Inr (makeResult sample_lib (VString ''v'')) \<and>
   makeResult sample_lib (VString ''v'') \<noteq> null_result \<and>
   matches_eq sample_lib ''k'' ''a.b'' (VMap [(''k'', VString ''a.b'')]) \<and>
   getByPath sample_lib (VMap [(''arr'', VSlice [VMap [(''k'', VString ''a.b'')]])]) ''arr.#(k=a.b)'' =
     Inr (makeResult sample_lib (VSlice [])) \<and>
   makeResult sample_lib (VSlice []) \<noteq> makeResult sample_lib (VMap [(''k'', VString ''a.b'')]) \<and>
   makeResult sample_lib (VSlice []) \<noteq> null_result"
proof -
  have quoted: "getByPath L (VMap [(''arr'', VSlice [VMap [(''k'', VString ''b'')]])])
       (''arr.#(k='' @ [CHR 0x22, CHR ''b'', CHR 0x22] @ '')'') =
     Inr (makeResult L (VMap [(''k'', VString ''b'')]))" for L :: "int golib"
  proof -
    have "handleArrayQuery L (VSlice [VMap [(''k'', VString ''b'')]]) (''k'' @ CHR ''='' # [CHR 0x22, CHR ''b'', CHR 0x22]) =
        (case find (matches_eq L (TrimSpace ''k'') (Trim (TrimSpace [CHR 0x22, CHR ''b'', CHR 0x22]) quotes))
                [VMap [(''k'', VString ''b'')]] of
           None \<Rightarrow> null_result
         | Some item \<Rightarrow> makeResult L item)"
      by (rule handleArrayQuery_eq) (simp_all add: Contains_def HasPrefix_def TrimSpace_k)
    then have "handleArrayQuery L (VSlice [VMap [(''k'', VString ''b'')]]) (''k'' @ CHR ''='' # [CHR 0x22, CHR ''b'', CHR 0x22]) =
        makeResult L (VMap [(''k'', VString ''b'')])"
      by (simp add: TrimSpace_k TrimSpace_quoted_b Trim_def quotes_def matches_eq_def Sprint_def)
    then show ?thesis
      using getByPath_query [of "''k''" "[CHR 0x22, CHR ''b'', CHR 0x22]" L
          "VMap [(''arr'', VSlice [VMap [(''k'', VString ''b'')]])]"]
      by (simp add: field_def)
  qed
  have less: "getByPath L (VMap [(''arr'', VSlice [VMap [(''k'', VString ''a<b'')]])]) ''arr.#(k=a<b)'' =
     Inr null_result" for L :: "int golib"
  proof -
    have "handleArrayQuery L (VSlice [VMap [(''k'', VString ''a<b'')]]) ''k=a<b'' = null_result"
      by (simp add: handleArrayQuery_def find_operator_k_eq_a_lt_b)
    then show ?thesis
      using getByPath_query [of "''k''" "''a<b''" L "VMap [(''arr'', VSlice [VMap [(''k'', VString ''a<b'')]])]"]
      by (simp add: field_def)
  qed
  have direct: "getByPath L (VMap [(''arr'', VSlice [VString ''v''])]) ''arr.#(=v)'' =
     Inr (makeResult L (VString ''v''))" for L :: "int golib"
  proof -
    have "handleArrayQuery L (VSlice [VString ''v'']) ''=v'' = makeResult L (VString ''v'')"
      by (simp add: handleArrayQuery_def find_operator_eq_v matchesCondition_def Sprint_def)
    then show ?thesis
      using getByPath_query [of "[]" "''v''" L "VMap [(''arr'', VSlice [VString ''v''])]"]
      by (simp add: field_def)
  qed
  have split: "Split ''arr.#(k=a.b)'' (CHR ''.'') = [''arr'', ''#(k=a'', ''b)'']"
    by simp
  have part: "HasPrefix ''#(k=a'' ''#''" "''#(k=a'' \<noteq> ''#''"
    "\<not> (HasPrefix ''#(k=a'' ''#('' \<and> HasSuffix ''#(k=a'' '')'')"
    by (simp_all add: HasPrefix_def HasSuffix_def)
  have item: "getByPath L (VMap [(''k'', VString ''a.b'')]) ''(k=a'' = Inr null_result"
    for L :: "int golib"
    by (simp add: getByPath_walk walk_key [OF plain_key_paren] field_def)
  have dotted: "getByPath L (VMap [(''arr'', VSlice [VMap [(''k'', VString ''a.b'')]])]) ''arr.#(k=a.b)'' =
      Inr (makeResult L (VSlice []))" for L :: "int golib"
    by (simp add: getByPath_walk walk_key [OF plain_key_arr] field_def walk_hash_prefix [OF part]
          handleArrayOperation.simps item Result_Exists_def null_result_Type)
  have results: "makeResult sample_lib (VMap [(''k'', VString ''b'')]) \<noteq> null_result"
    "makeResult sample_lib (VMap [(''k'', VString ''a<b'')]) \<noteq> null_result"
    "makeResult sample_lib (VString ''v'') \<noteq> null_result"
    "makeResult sample_lib (VSlice []) \<noteq> makeResult sample_lib (VMap [(''k'', VString ''a.b'')])"
    "makeResult sample_lib (VSlice []) \<noteq> null_result"
    by (simp_all add: makeResult_def null_result_def sample_lib_def)
  have matches: "\<not> matches_eq sample_lib ''k'' [CHR 0x22, CHR ''b'', CHR 0x22] (VMap [(''k'', VString ''b'')])"
    "matches_eq sample_lib ''k'' ''a<b'' (VMap [(''k'', VString ''a<b'')])"
    "\<not> matches_eq sample_lib [] ''v'' (VString ''v'')"
    "matches_eq sample_lib ''k'' ''a.b'' (VMap [(''k'', VString ''a.b'')])"
    by (simp_all add: matches_eq_def Sprint_def)
  show ?thesis
    by (intro conjI quoted less direct dotted results matches)
qed

text \<open>Claim C2, amended: let the text \<^verbatim>\<open>k=v\<close> hold no dot, no \<^verbatim>\<open><\<close>, no \<^verbatim>\<open>>\<close> and no
  \<^verbatim>\<open>!=\<close>, let \<open>k\<close> hold no \<^verbatim>\<open>=\<close>, and let \<open>k\<close> without the white space at its ends be
  not empty. The query looks for the key that is \<open>k\<close> without the white space at its
  ends, and for the literal that is \<open>v\<close> without the white space and then without the
  quote characters at its ends. When \<^verbatim>\<open>arr\<close> is a sequence, the path \<^verbatim>\<open>arr.#(k=v)\<close> yields
  the Result of the first element that is a string-keyed mapping with that key as a
  field whose value prints as that literal, that is the element at the smallest such
  index; elements without the field are passed over; the path yields Null when no
  element matches, and when \<^verbatim>\<open>arr\<close> is not a sequence. Keys and literals with a dot are
  left aside: the tests of the package query with dotted literals and expect a
  match.\<close>

theorem query_first_match:
  assumes "CHR ''.'' \<notin> set k \<union> set v"
    and "CHR ''<'' \<notin> set k \<union> set v" and "CHR ''>'' \<notin> set k \<union> set v"
    and "CHR ''='' \<notin> set k" and "\<not> Contains (k @ ''='' @ v) ''!=''"
    and "TrimSpace k \<noteq> []"
    and "key = TrimSpace k" and "lit = Trim (TrimSpace v) quotes"
  shows
    "(field ''arr'' doc = Some (VSlice arr) \<longrightarrow>
        getByPath L doc (''arr.#('' @ k @ ''='' @ v @ '')'') =
          Inr (case find (matches_eq L key lit) arr of
                 None \<Rightarrow> null_result
               | Some item \<Rightarrow> makeResult L item) \<and>
        (i < length arr \<and> matches_eq L key lit (arr ! i) \<and> (\<forall>j<i. \<not> matches_eq L key lit (arr ! j)) \<longrightarrow>
           getByPath L doc (''arr.#('' @ k @ ''='' @ v @ '')'') = Inr (makeResult L (arr ! i))) \<and>
        ((\<forall>j<length arr. \<not> matches_eq L key lit (arr ! j)) \<longrightarrow>
           getByPath L doc (''arr.#('' @ k @ ''='' @ v @ '')'') = Inr null_result)) \<and>
     (field ''arr'' doc = Some x \<and> (\<forall>xs. x \<noteq> VSlice xs) \<longrightarrow>
        getByPath L doc (''arr.#('' @ k @ ''='' @ v @ '')'') = Inr null_result)"
proof -
  from assms(1) have dots: "CHR ''.'' \<notin> set k" "CHR ''.'' \<notin> set v"
    by auto
  note g = getByPath_query [OF dots, of L doc]
  note q = handleArrayQuery_eq [OF assms(2-6), of L arr, folded assms(7,8)]
  have seq: "getByPath L doc (''arr.#('' @ k @ ''='' @ v @ '')'') =
          Inr (case find (matches_eq L key lit) arr of
                 None \<Rightarrow> null_result
               | Some item \<Rightarrow> makeResult L item)"
    if "field ''arr'' doc = Some (VSlice arr)"
    using that by (subst g) (simp add: q)
  have first: "find (matches_eq L key lit) arr = Some (arr ! i)"
    if "i < length arr" "matches_eq L key lit (arr ! i)" "\<forall>j<i. \<not> matches_eq L key lit (arr ! j)"
    using that by (auto simp: find_Some_iff)
  have none: "find (matches_eq L key lit) arr = None"
    if "\<forall>j<length arr. \<not> matches_eq L key lit (arr ! j)"
    using that by (auto simp: find_None_iff in_set_conv_nth)
  have other: "getByPath L doc (''arr.#('' @ k @ ''='' @ v @ '')'') = Inr null_result"
    if "field ''arr'' doc = Some x" "\<forall>xs. x \<noteq> VSlice xs"
    using that by (subst g) (simp add: handleArrayQuery_not_slice)
  show ?thesis
  proof (intro conjI impI)
    assume a: "field ''arr'' doc = Some (VSlice arr)"
    then show "getByPath L doc (''arr.#('' @ k @ ''='' @ v @ '')'') =
          Inr (case find (matches_eq L key lit) arr of
                 None \<Rightarrow> null_result
               | Some item \<Rightarrow> makeResult L item)"
      by (rule seq)
    {
      assume "i < length arr \<and> matches_eq L key lit (arr ! i) \<and> (\<forall>j<i. \<not> matches_eq L key lit (arr ! j))"
      then have "find (matches_eq L key lit) arr = Some (arr ! i)"
        using first by blast
      then show "getByPath L doc (''arr.#('' @ k @ ''='' @ v @ '')'') = Inr (makeResult L (arr ! i))"
        by (subst seq [OF a]) simp
    }
    {
      assume "\<forall>j<length arr. \<not> matches_eq L key lit (arr ! j)"
      then have "find (matches_eq L key lit) arr = None"
        by (rule none)
      then show "getByPath L doc (''arr.#('' @ k @ ''='' @ v @ '')'') = Inr null_result"
        by (subst seq [OF a]) simp
    }
  next
    assume "field ''arr'' doc = Some x \<and> (\<forall>xs. x \<noteq> VSlice xs)"
    then show "getByPath L doc (''arr.#('' @ k @ ''='' @ v @ '')'') = Inr null_result"
      using other by blast
  qed
qed

theorem query_first_match_witness:
  "CHR ''.'' \<notin> set ''k'' \<union> set [CHR 0x22, CHR ''b'', CHR 0x22] \<and>
   CHR ''<'' \<notin> set ''k'' \<union> set [CHR 0x22, CHR ''b'', CHR 0x22] \<and>
   CHR ''>'' \<notin> set ''k'' \<union> set [CHR 0x22, CHR ''b'', CHR 0x22] \<and>
   CHR ''='' \<notin> set ''k'' \<and>
   \<not> Contains (''k'' @ ''='' @ [CHR 0x22, CHR ''b'', CHR 0x22]) ''!='' \<and>
   TrimSpace ''k'' = ''k'' \<and> Trim (TrimSpace [CHR 0x22, CHR ''b'', CHR 0x22]) quotes = ''b'' \<and>
   (1::nat) < length [VMap [(''k'', VString ''a'')], VMap [(''k'', VString ''b'')],
                      VMap [(''k'', VString ''b''), (''z'', VNil)] :: int node] \<and>
   matches_eq sample_lib ''k'' ''b'' (VMap [(''k'', VString ''b'')]) \<and>
   \<not> matches_eq sample_lib ''k'' ''b'' (VMap [(''k'', VString ''a'')]) \<and>
   getByPath sample_lib
     (VMap [(''arr'', VSlice [VMap [(''k'', VString ''a'')], VMap [(''k'', VString ''b'')],
                              VMap [(''k'', VString ''b''), (''z'', VNil)]])])
     (''arr.#(k='' @ [CHR 0x22, CHR ''b'', CHR 0x22] @ '')'') =
       Inr (makeResult sample_lib (VMap [(''k'', VString ''b'')]))"
proof -
  have chars: "CHR ''.'' \<notin> set ''k'' \<union> set [CHR 0x22, CHR ''b'', CHR 0x22]"
    "CHR ''<'' \<notin> set ''k'' \<union> set [CHR 0x22, CHR ''b'', CHR 0x22]"
    "CHR ''>'' \<notin> set ''k'' \<union> set [CHR 0x22, CHR ''b'', CHR 0x22]"
    "CHR ''='' \<notin> set ''k''"
    "\<not> Contains (''k'' @ ''='' @ [CHR 0x22, CHR ''b'', CHR 0x22]) ''!=''"
    by (simp_all add: Contains_def HasPrefix_def)
  have trims: "TrimSpace ''k'' \<noteq> []" "''k'' = TrimSpace ''k''"
    "''b'' = Trim (TrimSpace [CHR 0x22, CHR ''b'', CHR 0x22]) quotes"
    by (simp_all add: TrimSpace_k TrimSpace_quoted_b Trim_def quotes_def)
  have elems: "matches_eq sample_lib ''k'' ''b'' (VMap [(''k'', VString ''b'')])"
    "\<not> matches_eq sample_lib ''k'' ''b'' (VMap [(''k'', VString ''a'')])"
    by (simp_all add: matches_eq_def Sprint_def)
  have "getByPath sample_lib
     (VMap [(''arr'', VSlice [VMap [(''k'', VString ''a'')], VMap [(''k'', VString ''b'')],
                              VMap [(''k'', VString ''b''), (''z'', VNil)]])])
     (''arr.#('' @ ''k'' @ ''='' @ [CHR 0x22, CHR ''b'', CHR 0x22] @ '')'') =
       Inr (makeResult sample_lib (VMap [(''k'', VString ''b'')]))"
    using query_first_match [OF chars trims,
        of "VMap [(''arr'', VSlice [VMap [(''k'', VString ''a'')], VMap [(''k'', VString ''b'')],
                               VMap [(''k'', VString ''b''), (''z'', VNil)]])]"
           "[VMap [(''k'', VString ''a'')], VMap [(''k'', VString ''b'')],
             VMap [(''k'', VString ''b''), (''z'', VNil)]]" sample_lib 1] elems
    by (simp add: field_def)
  with chars trims elems show ?thesis
    by simp
qed

section \<open>Broadcast of a key (C4)\<close>

lemma collect_plain_key:
  assumes "plain_key k"
  shows "collect L arr k = Inr (broadcast_values L k arr)"
proof (induction arr)
  case Nil
  show ?case by (simp add: broadcast_values_def List.map_filter_simps)
next
  case (Cons item arr)
  then show ?case
    by (simp add: getByPath_plain_key [OF assms] broadcast_values_def List.map_filter_simps
          Result_Exists_def null_result_Type split: option.splits)
qed

lemma length_broadcast_values:
  "length (broadcast_values L k arr) = length (filter (has_value L k) arr)"
  by (induction arr)
     (auto simp: broadcast_values_def has_value_def List.map_filter_simps split: option.splits)

lemma broadcast_path_split:
  assumes "plain_key k"
  shows "Split (''arr.#.'' @ k) (CHR ''.'') = [''arr'', ''#'', k]"
proof -
  from assms have "CHR ''.'' \<notin> set k"
    by (simp add: plain_key_def)
  then show ?thesis
    using Split_append [of "CHR ''.''" "''arr''" "''#.'' @ k"] Split_append [of "CHR ''.''" "''#''" k]
    by (simp add: Split_no_sep)
qed

lemma getByPath_broadcast:
  assumes "plain_key k"
  shows "getByPath L doc (''arr.#.'' @ k) =
     (case field ''arr'' doc of
        None \<Rightarrow> Inr null_result
      | Some x \<Rightarrow> handleArrayOperation L x k)"
proof -
  have "getByPath L doc (''arr.#.'' @ k) = walk L doc [''arr'', ''#'', k]"
    using broadcast_path_split [OF assms] by (simp add: getByPath_walk)
  also have "\<dots> = (case field ''arr'' doc of
        None \<Rightarrow> Inr null_result
      | Some x \<Rightarrow> walk L x [''#'', k])"
    by (rule walk_key [OF plain_key_arr])
  also have "\<dots> = (case field ''arr'' doc of
        None \<Rightarrow> Inr null_result
      | Some x \<Rightarrow> handleArrayOperation L x k)"
    by (simp add: walk_hash_more split: option.splits)
  finally show ?thesis .
qed

text \<open>Claim C4, as stated, counts the elements of \<^verbatim>\<open>arr\<close> that define the key \<open>k\<close>. An
  element that defines \<open>k\<close> as null is not collected: the Result of null does not
  exist. For \<^verbatim>\<open>arr: [{k: null}]\<close> the path \<^verbatim>\<open>arr.#.k\<close> yields a Container of no elements.\<close>

theorem broadcast_null_field_counterexample:
  "field ''k'' (VMap [(''k'', VNil)] :: int node) = Some VNil \<and>
   getByPath sample_lib (VMap [(''arr'', VSlice [VMap [(''k'', VNil)]])]) ''arr.#.k'' =
     Inr (makeResult sample_lib (VSlice [])) \<and>
   Type (makeResult sample_lib (VSlice [])) = YAML"
proof -
  have "getByPath L (VMap [(''arr'', VSlice [VMap [(''k'', VNil)]])]) (''arr.#.'' @ ''k'') =
      Inr (makeResult L (VSlice []))" for L :: "int golib"
    by (subst getByPath_broadcast [OF plain_key_k])
       (simp add: field_def handleArrayOperation.simps collect_plain_key [OF plain_key_k]
          broadcast_values_def List.map_filter_simps makeResult_VNil Result_Exists_def null_result_Type)
  then show ?thesis
    by (simp add: field_def makeResult_def null_result_def sample_lib_def)
qed

text \<open>Claim C4, amended: for a key \<open>k\<close> that the loop reads as a map key, and \<^verbatim>\<open>arr\<close> a
  sequence, the path \<^verbatim>\<open>arr.#.k\<close> yields the Result of the collected list, which is a
  Container, also when the list is empty, as long as the encoder accepts the list. The
  list has one element for each element of \<^verbatim>\<open>arr\<close> that has the field \<open>k\<close> with a
  value whose Result exists, hence no more than \<^verbatim>\<open>arr\<close> has; when the encoder never
  fails, these are the elements that define \<open>k\<close> with a value other than null. When
  \<^verbatim>\<open>arr\<close> is not a sequence the path yields Null.\<close>

theorem broadcast_count:
  assumes "plain_key k"
  shows
    "(field ''arr'' doc = Some (VSlice arr) \<longrightarrow>
        getByPath L doc (''arr.#.'' @ k) = Inr (makeResult L (VSlice (broadcast_values L k arr))) \<and>
        length (broadcast_values L k arr) = length (filter (has_value L k) arr) \<and>
        length (broadcast_values L k arr) \<le> length arr \<and>
        (Marshal L (VSlice (broadcast_values L k arr)) \<noteq> None \<longrightarrow>
           Type (makeResult L (VSlice (broadcast_values L k arr))) = YAML)) \<and>
     (field ''arr'' doc = Some x \<and> (\<forall>xs. x \<noteq> VSlice xs) \<longrightarrow>
        getByPath L doc (''arr.#.'' @ k) = Inr null_result) \<and>
     ((\<forall>v. Marshal L v \<noteq> None) \<longrightarrow>
        has_value L k item = (\<exists>v. field k item = Some v \<and> v \<noteq> VNil))"
proof (intro conjI impI)
  from assms have ne: "k \<noteq> []"
    by (simp add: plain_key_def)
  note g = getByPath_broadcast [OF assms, of L doc]
  {
    assume a: "field ''arr'' doc = Some (VSlice arr)"
    with ne show "getByPath L doc (''arr.#.'' @ k) = Inr (makeResult L (VSlice (broadcast_values L k arr)))"
      by (subst g) (simp add: handleArrayOperation.simps collect_plain_key [OF assms])
  }
  show "length (broadcast_values L k arr) = length (filter (has_value L k) arr)"
    by (rule length_broadcast_values)
  then show "length (broadcast_values L k arr) \<le> length arr"
    by simp
  {
    assume "Marshal L (VSlice (broadcast_values L k arr)) \<noteq> None"
    then show "Type (makeResult L (VSlice (broadcast_values L k arr))) = YAML"
      by (auto simp: makeResult_def null_result_def)
  }
  {
    assume "field ''arr'' doc = Some x \<and> (\<forall>xs. x \<noteq> VSlice xs)"
    then show "getByPath L doc (''arr.#.'' @ k) = Inr null_result"
      by (subst g) (simp add: handleArrayOperation_not_slice)
  }
  {
    assume "\<forall>v. Marshal L v \<noteq> None"
    then show "has_value L k item = (\<exists>v. field k item = Some v \<and> v \<noteq> VNil)"
      by (auto simp: has_value_def Result_Exists_makeResult split: option.splits node.splits)
  }
qed

theorem broadcast_count_witness:
  "plain_key ''k'' \<and>
   getByPath sample_lib
     (VMap [(''arr'', VSlice [VMap [(''k'', VString ''x'')], VMap [(''z'', VInt KInt 1)],
                              VInt KInt 7, VMap [(''k'', VBool True)]])]) ''arr.#.k'' =
     Inr (makeResult sample_lib (VSlice [VString ''x'', VBool True])) \<and>
   length (filter (has_value sample_lib ''k'')
     [VMap [(''k'', VString ''x'')], VMap [(''z'', VInt KInt 1)], VInt KInt 7,
      VMap [(''k'', VBool True)]]) = 2"
  using broadcast_count [OF plain_key_k, of
      "VMap [(''arr'', VSlice [VMap [(''k'', VString ''x'')], VMap [(''z'', VInt KInt 1)],
                               VInt KInt 7, VMap [(''k'', VBool True)]])]"
      "[VMap [(''k'', VString ''x'')], VMap [(''z'', VInt KInt 1)], VInt KInt 7,
        VMap [(''k'', VBool True)]]" sample_lib]
  by (simp add: plain_key_k field_def broadcast_values_def List.map_filter_simps has_value_def
        makeResult_def null_result_def Result_Exists_def Result_Value_def)

section \<open>Int and Uint (C5)\<close>




section \<open>Empty segments (C6)\<close>

text \<open>Empty segments are skipped: a path none of whose segments starts with \<^verbatim>\<open>#\<close>
  resolves as the path without its empty segments does.\<close>

lemma walk_skips_empty_segments:
  "(\<And>p. p \<in> set parts \<Longrightarrow> \<not> HasPrefix p ''#'') \<Longrightarrow>
   walk L current parts = walk L current (filter (\<lambda>p. p \<noteq> []) parts)"
proof (induction parts arbitrary: current)
  case Nil
  show ?case by simp
next
  case (Cons part rest)
  then have ih: "walk L c rest = walk L c (filter (\<lambda>p. p \<noteq> []) rest)" for c
    by simp
  show ?case
  proof (cases "part = []")
    case True
    with ih show ?thesis
      by (simp add: walk_empty)
  next
    case False
    moreover from Cons.prems have "\<not> HasPrefix part ''#''"
      by simp
    ultimately show ?thesis
      by (simp add: walk_other ih cong: option.case_cong node.case_cong if_cong)
  qed
qed

lemma getByPath_skips_empty_segments:
  assumes "\<And>p. p \<in> set (Split path (CHR ''.'')) \<Longrightarrow> \<not> HasPrefix p ''#''"
  shows "getByPath L root_node path =
         getByPath L root_node (Join (filter (\<lambda>p. p \<noteq> []) (Split path (CHR ''.''))) (CHR ''.''))"
proof -
  let ?parts = "Split path (CHR ''.'')"
  let ?kept = "filter (\<lambda>p. p \<noteq> []) ?parts"
  have lhs: "getByPath L root_node path = walk L root_node ?kept"
  proof (cases "path = []")
    case True
    then show ?thesis by (simp add: getByPath_empty)
  next
    case False
    then show ?thesis
      using walk_skips_empty_segments [of ?parts L root_node] assms
      by (simp add: getByPath_walk)
  qed
  show ?thesis
  proof (cases "?kept = []")
    case True
    with lhs show ?thesis
      by (simp add: getByPath_empty)
  next
    case False
    have "Split (Join ?kept (CHR ''.'')) (CHR ''.'') = ?kept"
      using False by (intro Split_Join) (auto dest: Split_no_sep_in_parts)
    moreover have "Join ?kept (CHR ''.'') \<noteq> []"
      using False by (intro Join_not_Nil) auto
    ultimately show ?thesis
      using lhs by (simp add: getByPath_walk)
  qed
qed

text \<open>Claim C6 says that a \<^verbatim>\<open>#\<close> token followed only by empty segments is a last
  segment and yields the length. The loop compares the index of the token with the
  index of the last segment, so for \<^verbatim>\<open>arr.#.\<close> the token is not last: the path yields
  the Container of the whole sequence, where \<^verbatim>\<open>arr.#\<close> yields the length 2.\<close>

theorem hash_before_trailing_dot:
  "getByPath sample_lib (VMap [(''arr'', VSlice [VInt KInt 1, VInt KInt 2])]) ''arr.#'' =
     Inr (null_result\<lparr>Type := Number, Num := 2\<rparr>) \<and>
   getByPath sample_lib (VMap [(''arr'', VSlice [VInt KInt 1, VInt KInt 2])]) ''arr.#.'' =
     Inr (makeResult sample_lib (VSlice [VInt KInt 1, VInt KInt 2])) \<and>
   Type (makeResult sample_lib (VSlice [VInt KInt 1, VInt KInt 2])) = YAML"
proof -
  have 1: "getByPath L (VMap [(''arr'', VSlice xs)]) ''arr.#'' =
      Inr (null_result\<lparr>Type := Number, Num := float64_of_int L (int (length xs))\<rparr>)" for L :: "int golib" and xs
    using getByPath_arr [of L "VSlice xs" "''#''"] by (simp add: walk_hash_last)
  have 2: "getByPath L (VMap [(''arr'', VSlice xs)]) ''arr.#.'' = Inr (makeResult L (VSlice xs))"
    for L :: "int golib" and xs
    using getByPath_arr [of L "VSlice xs" "''#.''"]
    by (simp add: walk_hash_more handleArrayOperation.simps)
  show ?thesis
    by (simp add: 1 2) (simp add: sample_lib_def makeResult_def null_result_def)
qed

section \<open>Parse and Valid (C7)\<close>

text \<open>Claim C7, as stated: Parse returns a Container exactly when Valid is true. This
  fails for the empty document: the decoder accepts it, so Valid is true, but Parse
  returns Null before it calls the decoder.\<close>

theorem Parse_empty_counterexample:
  "\<not> (Type (Parse sample_lib []) = YAML \<longleftrightarrow> Valid sample_lib [])"
  by (simp add: Parse_def Valid_def sample_Unmarshal_empty null_result_def)

text \<open>Claim C7, amended: for every non-empty document text, Parse returns the Container
  that wraps the whole text exactly when Valid is true and returns Null exactly when
  Valid is false; for the empty text Parse returns Null.\<close>

theorem Parse_iff_Valid:
  "(yamlStr \<noteq> [] \<longrightarrow>
      (Parse L yamlStr = null_result\<lparr>Type := YAML, Raw := yamlStr\<rparr> \<longleftrightarrow> Valid L yamlStr) \<and>
      (Parse L yamlStr = null_result \<longleftrightarrow> \<not> Valid L yamlStr)) \<and>
   Parse L [] = null_result"
  by (auto simp: Parse_def Valid_def null_result_def split: prod.splits)

theorem Parse_iff_Valid_witness:
  "''a: 1'' \<noteq> [] \<and> Valid sample_lib ''a: 1'' \<and>
   Parse sample_lib ''a: 1'' = null_result\<lparr>Type := YAML, Raw := ''a: 1''\<rparr> \<and>
   ''a: ['' \<noteq> [] \<and> \<not> Valid sample_lib ''a: ['' \<and> Parse sample_lib ''a: ['' = null_result"
  using Parse_iff_Valid [of "''a: 1''" sample_lib] Parse_iff_Valid [of "''a: [''" sample_lib]
  by (simp add: Valid_def sample_lib_def sample_documents_def)

section \<open>Result.Get (C8)\<close>

text \<open>Claim C8, as stated: for every Result of Type YAML whose raw text the decoder
  accepts, Get with the empty path returns that Result. This fails when the raw text is
  empty: the decoder accepts it, but Get returns Null for an empty document.\<close>

theorem Result_Get_empty_raw_counterexample:
  "Type (null_result\<lparr>Type := YAML\<rparr> :: int Result) = YAML \<and>
   Valid sample_lib (Raw (null_result\<lparr>Type := YAML\<rparr> :: int Result)) \<and>
   Result_Get sample_lib (null_result\<lparr>Type := YAML\<rparr>) [] \<noteq> Inr (null_result\<lparr>Type := YAML\<rparr>)"
  by (simp add: Result_Get_def Get_def Valid_def sample_Unmarshal_empty null_result_def)

text \<open>Claim C8, amended: for every Result \<open>R\<close> of Type YAML whose raw text is not empty
  and is accepted by the decoder, \<open>R.Get("")\<close> returns the Container with the raw text
  of \<open>R\<close>, which is \<open>R\<close> itself when the remaining fields of \<open>R\<close> are zero, as they are
  in every Result that gyaml.go builds; and for a receiver whose Type is not YAML,
  Result.Get returns Null for every path.\<close>

theorem Result_Get_round_trip:
  "(Type R = YAML \<and> Raw R \<noteq> [] \<and> Valid L (Raw R) \<longrightarrow>
      Result_Get L R [] = Inr (null_result\<lparr>Type := YAML, Raw := Raw R\<rparr>) \<and>
      (Str R = [] \<and> Num R = 0 \<and> Index R = 0 \<longrightarrow> Result_Get L R [] = Inr R)) \<and>
   (Type R \<noteq> YAML \<longrightarrow> Result_Get L R path = Inr null_result)"
  by (auto simp: Result_Get_def Get_def Valid_def null_result_def split: prod.splits)

theorem Result_Get_round_trip_witness:
  "Result_Get sample_lib (Parse sample_lib ''a: 1'') [] = Inr (Parse sample_lib ''a: 1'') \<and>
   Type (Parse sample_lib ''a: 1'') = YAML \<and>
   Result_Get sample_lib (makeResult sample_lib (VString ''x'')) ''a'' = Inr null_result"
  using Result_Get_round_trip [of "Parse sample_lib ''a: 1''" sample_lib]
        Result_Get_round_trip [of "makeResult sample_lib (VString ''x'')" sample_lib "''a''"]
  by (simp add: Parse_def Valid_def sample_lib_def sample_documents_def null_result_def makeResult_def)

section \<open>Explicit null and missing keys (C9)\<close>

text \<open>Claim C9: a value that is explicitly null resolves to the Result of Type Null, for
  which Exists is false, and that is the very Result returned for a missing key. Here the
  key \<open>k\<close> is bound to null in \<open>doc\<close> and is missing in \<open>doc'\<close>; the two agree for the
  path \<open>k\<close>, for every longer path that starts with \<open>k\<close>, and at every position of the
  loop of getByPath. Once the current node of the loop is null, under a key, at an index
  or after a query, the result is that Result whatever segments remain. The last
  conjunct: whatever the document and the path, a Result that does not exist is that
  same value, so nothing in it tells null from absent.\<close>

theorem explicit_null_is_absent:
  fixes L :: "('f::{zero,ord}) golib"
  assumes "plain_key k" and "field k doc = Some VNil" and "field k doc' = None"
  shows "getByPath L doc k = Inr null_result \<and> getByPath L doc' k = Inr null_result \<and>
         getByPath L doc (k @ CHR ''.'' # others) = Inr null_result \<and>
         getByPath L doc' (k @ CHR ''.'' # others) = Inr null_result \<and>
         walk L doc (k # rest) = Inr null_result \<and> walk L doc' (k # rest) = Inr null_result \<and>
         walk L VNil rest = Inr null_result \<and>
         Type (null_result :: 'f Result) = Null \<and> \<not> Result_Exists (null_result :: 'f Result) \<and>
         (\<forall>r. getByPath L any_doc any_path = Inr r \<and> \<not> Result_Exists r \<longrightarrow> r = null_result)"
proof -
  from assms(1) have ne: "k \<noteq> []" and dot: "CHR ''.'' \<notin> set k"
    by (simp_all add: plain_key_def)
  have w: "walk L doc (k # ps) = Inr null_result" "walk L doc' (k # ps) = Inr null_result" for ps
    using assms by (simp_all add: walk_key walk_VNil)
  have "r = null_result" if "getByPath L any_doc any_path = Inr r" "\<not> Result_Exists r" for r
    using that null_results_are_equal(1) [of L any_doc any_path r]
    by (simp add: Result_Exists_def)
  with ne dot w show ?thesis
    by (simp add: getByPath_walk Split_no_sep Split_append null_result_Type Result_Exists_def
          walk_VNil)
qed

theorem explicit_null_is_absent_witness:
  "plain_key ''a'' \<and>
   field ''a'' (VMap [(''a'', VNil)] :: int node) = Some VNil \<and>
   field ''a'' (VMap [(''b'', VInt KInt 1)] :: int node) = None \<and>
   getByPath sample_lib (VMap [(''a'', VNil)]) ''a'' = Inr null_result \<and>
   getByPath sample_lib (VMap [(''b'', VInt KInt 1)]) ''a'' = Inr null_result"
  using explicit_null_is_absent [of "''a''" "VMap [(''a'', VNil)]" "VMap [(''b'', VInt KInt 1)]" sample_lib]
  by (simp add: plain_key_a field_def)

section \<open>Integer tokens and mappings (C10)\<close>

text \<open>Claim C10: a path token that parses as a base-10 integer is always read as a
  sequence index. When the current node is a mapping (of either Go map type), the loop
  returns Null at that token, whatever the mapping holds, also when it has the token as
  a key, so an entry with an integer-looking key cannot be reached by a path. The loop
  is \<open>walk\<close>; the next four conjuncts are whole paths that start with the token; the
  last one is the index step on a sequence.\<close>

theorem integer_token_on_mapping:
  assumes "Atoi tok = Some n"
  shows "walk L (VMap m) (tok # rest) = Inr null_result \<and>
         walk L (VMapAny m') (tok # rest) = Inr null_result \<and>
         getByPath L (VMap m) tok = Inr null_result \<and>
         getByPath L (VMapAny m') tok = Inr null_result \<and>
         getByPath L (VMap m) (tok @ CHR ''.'' # others) = Inr null_result \<and>
         getByPath L (VMapAny m') (tok @ CHR ''.'' # others) = Inr null_result \<and>
         walk L (VSlice v) (tok # rest) =
           (if n < 0 \<or> n \<ge> int (length v) then Inr null_result else walk L (v ! nat n) rest)"
proof -
  from Atoi_Some_chars [OF assms] have ne: "tok \<noteq> []" and dot: "CHR ''.'' \<notin> set tok"
    by simp_all
  have w: "walk L (VMap m) (tok # ps) = Inr null_result"
          "walk L (VMapAny m') (tok # ps) = Inr null_result" for ps
    by (simp_all add: walk_integer [OF assms])
  have s: "walk L (VSlice v) (tok # rest) =
      (if n < 0 \<or> n \<ge> int (length v) then Inr null_result else walk L (v ! nat n) rest)"
    by (simp add: walk_integer [OF assms])
  from ne dot w s show ?thesis
    by (simp add: getByPath_walk Split_no_sep Split_append)
qed

theorem integer_token_on_mapping_witness:
  "Atoi ''0'' = Some 0 \<and>
   map_of [(''0'', VString ''zero'')] ''0'' = Some (VString ''zero'' :: int node) \<and>
   getByPath sample_lib (VMap [(''0'', VString ''zero'')]) ''0'' = Inr null_result"
  using integer_token_on_mapping [OF Atoi_0, of sample_lib "[(''0'', VString ''zero'')]"]
  by (simp add: Atoi_0)

end
